theory Spec2Isabelle
  imports Complex_Main
begin

section \<open>Numbers and vectors\<close>

text \<open>
  JavaScript numbers are modelled twice. In the bodies, the pool and the first model of
  the stepper they are exact reals: \<open>+\<close>, \<open>-\<close>, \<open>*\<close>, \<open>/\<close>, \<open>Math.min\<close>, \<open>Math.abs\<close>,
  \<open>Math.sign\<close> and \<open>Math.sqrt\<close> are the operations of \<open>real\<close>, an idealisation under
  which no operation rounds. The section on IEEE doubles repeats the stepper with every
  operation rounded to the nearest double; the bound of the simulated time by the sum of
  the frame times, which rounding decides, is stated and proved there. NaN and the
  infinities are outside both models.

  A \<open>Vector3\<close> of the graphics library is a triple; \<open>v[0]\<close>, \<open>v[1]\<close>, \<open>v[2]\<close> are
  \<open>vec_x\<close>, \<open>vec_y\<close>, \<open>vec_z\<close>.
\<close>

type_synonym vec3 = "real \<times> real \<times> real"

definition vec_x :: "vec3 \<Rightarrow> real" where
  "vec_x v = fst v"

definition vec_y :: "vec3 \<Rightarrow> real" where
  "vec_y v = fst (snd v)"

definition vec_z :: "vec3 \<Rightarrow> real" where
  "vec_z v = snd (snd v)"

text \<open>
  Modelled from the spec: the vector helpers of the graphics library
  (\<open>tiny-graphics.js\<close>, imported through \<open>./examples/common.js\<close>) are not among the
  sources. The spec names them where the pool uses them: a position "uniformly at random
  within a bounded box", a velocity that is the "unit down vector perturbed by bounded
  random jitter, normalized, scaled to a speed constant", and a drawn position that is a
  "linear interpolation" of the two latest positions. \<open>randomized s\<close> adds to each
  component \<open>s * (Math.random() - 0.5)\<close>, one draw per component, in order.
\<close>

definition plus_vec3 :: "vec3 \<Rightarrow> vec3 \<Rightarrow> vec3" where
  "plus_vec3 a b = (vec_x a + vec_x b, vec_y a + vec_y b, vec_z a + vec_z b)"

definition times_vec3 :: "vec3 \<Rightarrow> real \<Rightarrow> vec3" where
  "times_vec3 v s = (vec_x v * s, vec_y v * s, vec_z v * s)"

definition norm_vec3 :: "vec3 \<Rightarrow> real" where
  "norm_vec3 v = sqrt (vec_x v * vec_x v + vec_y v * vec_y v + vec_z v * vec_z v)"

definition normalized :: "vec3 \<Rightarrow> vec3" where
  "normalized v = times_vec3 v (1 / norm_vec3 v)"

definition mix :: "vec3 \<Rightarrow> vec3 \<Rightarrow> real \<Rightarrow> vec3" where
  "mix a b s = ((1 - s) * vec_x a + s * vec_x b,
                (1 - s) * vec_y a + s * vec_y b,
                (1 - s) * vec_z a + s * vec_z b)"

section \<open>Bodies\<close>

text \<open>
  Modelled from the spec: class \<open>Body\<close> lives in \<open>./examples/collisions-demo.js\<close>, which
  is not among the sources. The spec gives a body its shape and material handles, a
  size, "two trailing kinematic snapshots", a \<open>linear_velocity\<close>, an
  \<open>angular_velocity\<close> and the blended \<open>drawn_location\<close>. The record keeps the position
  part of the snapshots (\<open>previous.center\<close>, \<open>center\<close>) and of \<open>drawn_location\<close>; the
  orientation matrices and the spin axis take part in no claim and are left out.
\<close>

datatype shape = cylinder | sphere

datatype material = rain | rainBright | fake_bump_map

record body =
  shape :: shape
  material :: material
  body_size :: vec3
  center :: vec3
  previous_center :: vec3
  linear_velocity :: vec3
  angular_velocity :: real
  drawn_center :: vec3

text \<open>
  Modelled from the spec: \<open>new Body(shape, material, size).emplace(location,
  linear_velocity, angular_velocity)\<close> of the absent \<open>Body\<close> class, with \<open>location\<close> the
  translation to the point \<open>c\<close>.
\<close>

definition emplace :: "shape \<Rightarrow> material \<Rightarrow> vec3 \<Rightarrow> vec3 \<Rightarrow> vec3 \<Rightarrow> real \<Rightarrow> body" where
  "emplace sh m sz c v w =
     \<lparr>shape = sh, material = m, body_size = sz, center = c, previous_center = c,
      linear_velocity = v, angular_velocity = w, drawn_center = c\<rparr>"

text \<open>
  Modelled from the spec: \<open>Body.advance\<close>, which "pushes \<open>current_state\<close> to
  \<open>previous_state\<close> and computes a new \<open>current_state\<close>" by "integrating
  \<open>linear_velocity\<close> over \<open>dt\<close>".
\<close>

definition advance :: "real \<Rightarrow> body \<Rightarrow> body" where
  "advance time_amount b =
     b\<lparr>previous_center := center b,
       center := plus_vec3 (center b) (times_vec3 (linear_velocity b) time_amount)\<rparr>"

text \<open>
  Modelled from the spec: \<open>Body.blend_state\<close>, "\<open>drawn_location = lerp(previous_state,
  current_state, alpha)\<close> (position: linear interpolation)".
\<close>

definition blend_state :: "real \<Rightarrow> body \<Rightarrow> body" where
  "blend_state alpha b = b\<lparr>drawn_center := mix (previous_center b) (center b) alpha\<rparr>"

section \<open>The stepper: class Simulation\<close>

text \<open>
  The fields the constructor of \<open>Simulation\<close> assigns. \<open>random\<close> and \<open>random_calls\<close>
  are the environment: \<open>Math.random()\<close> returns \<open>random random_calls\<close> and counts the call.
  A subclass extends the record with its own fields.
\<close>

record simulation =
  time_accumulator :: real
  time_scale :: real
  t :: real
  dt :: real
  bodies :: "body list"
  steps_taken :: nat
  raining :: bool
  random :: "nat \<Rightarrow> real"
  random_calls :: nat

text \<open>A call either returns or throws; the object keeps what was written before a throw.\<close>

datatype 's outcome = Returned 's | Thrown string 's

fun state_of :: "'s outcome \<Rightarrow> 's" where
  "state_of (Returned s) = s"
| "state_of (Thrown e s) = s"

definition Math_random :: "'m simulation_scheme \<Rightarrow> real \<times> 'm simulation_scheme" where
  "Math_random s = (random s (random_calls s), s\<lparr>random_calls := random_calls s + 1\<rparr>)"

definition randomized :: "vec3 \<Rightarrow> real \<Rightarrow> 'm simulation_scheme \<Rightarrow> vec3 \<times> 'm simulation_scheme" where
  "randomized v sc s =
     (let (r0, s0) = Math_random s;
          (r1, s1) = Math_random s0;
          (r2, s2) = Math_random s1
      in ((vec_x v + sc * (r0 - 0.5), vec_y v + sc * (r1 - 0.5), vec_z v + sc * (r2 - 0.5)), s2))"

text \<open>\<open>Math.random()\<close> returns a number from 0 up to, not including, 1.\<close>

definition unit_random :: "'m simulation_scheme \<Rightarrow> bool" where
  "unit_random s = (\<forall>n. 0 \<le> random s n \<and> random s n < 1)"

text \<open>
  The spawn box: what \<open>vec3(0, 10, 0).randomized(40)\<close> can return, the centre moved by
  less than 20 along each axis.
\<close>

definition spawn_box :: "vec3 \<Rightarrow> bool" where
  "spawn_box c \<longleftrightarrow> - 20 \<le> vec_x c \<and> vec_x c < 20 \<and> - 10 \<le> vec_y c \<and> vec_y c < 30 \<and>
                  - 20 \<le> vec_z c \<and> vec_z c < 20"

text \<open>A random source for concrete runs: every draw is one half.\<close>

definition half_random :: "nat \<Rightarrow> real" where
  "half_random n = 1 / 2"

definition Simulation_new :: "(nat \<Rightarrow> real) \<Rightarrow> simulation" where
  "Simulation_new rnd =
     \<lparr>time_accumulator = 0, time_scale = 1, t = 0, dt = 1 / 20, bodies = [], steps_taken = 0,
      raining = True, random = rnd, random_calls = 0\<rparr>"

text \<open>\<open>Simulation.update_state\<close>: the abstract method, \<open>throw "Override this"\<close>.\<close>

definition Simulation_update_state ::
  "real \<Rightarrow> 'm simulation_scheme \<Rightarrow> 'm simulation_scheme outcome" where
  "Simulation_update_state d s = Thrown ''Override this'' s"

text \<open>
  \<open>Simulation.simulate\<close>, in three parts. \<open>accumulate\<close> is the scaling of the frame time
  and the clamped addition to the accumulator (it returns the scaled frame time, which the
  loop reads). \<open>sub_steps\<close> is the \<open>while\<close> loop, with the subclass's \<open>update_state\<close> as
  \<open>upd\<close>; the loop need not end, so its result is an option. \<open>simulate\<close> puts them
  together and blends the bodies.
  The arithmetic here is exact; the section on IEEE doubles gives the same three parts with
  each operation rounded.
\<close>

definition accumulate :: "real \<Rightarrow> 'm simulation_scheme \<Rightarrow> real \<times> 'm simulation_scheme" where
  "accumulate frame_time s =
     (let frame_time = time_scale s * frame_time
      in (frame_time, s\<lparr>time_accumulator := time_accumulator s + min frame_time 0.1\<rparr>))"

definition sub_step_end :: "real \<Rightarrow> 'm simulation_scheme \<Rightarrow> 'm simulation_scheme" where
  "sub_step_end frame_time s1 =
     (let s2 = s1\<lparr>bodies := map (advance (dt s1)) (bodies s1)\<rparr>;
          s3 = s2\<lparr>t := t s2 + sgn frame_time * dt s2\<rparr>;
          s4 = s3\<lparr>time_accumulator := time_accumulator s3 - sgn frame_time * dt s3\<rparr>
      in s4\<lparr>steps_taken := steps_taken s4 + 1\<rparr>)"

partial_function (option) sub_steps ::
  "(real \<Rightarrow> 'm simulation_scheme \<Rightarrow> 'm simulation_scheme outcome) \<Rightarrow> real
     \<Rightarrow> 'm simulation_scheme \<Rightarrow> 'm simulation_scheme outcome option" where
  "sub_steps upd frame_time s =
     (if \<bar>time_accumulator s\<bar> \<ge> dt s then
        (case upd (dt s) s of
           Thrown e s' \<Rightarrow> Some (Thrown e s')
         | Returned s1 \<Rightarrow> sub_steps upd frame_time (sub_step_end frame_time s1))
      else Some (Returned s))"

definition blend_all :: "'m simulation_scheme \<Rightarrow> 'm simulation_scheme" where
  "blend_all s =
     (let alpha = time_accumulator s / dt s
      in s\<lparr>bodies := map (blend_state alpha) (bodies s)\<rparr>)"

definition simulate ::
  "(real \<Rightarrow> 'm simulation_scheme \<Rightarrow> 'm simulation_scheme outcome) \<Rightarrow> real
     \<Rightarrow> 'm simulation_scheme \<Rightarrow> 'm simulation_scheme outcome option" where
  "simulate upd frame_time s =
     (let (frame_time, s0) = accumulate frame_time s
      in case sub_steps upd frame_time s0 of
           None \<Rightarrow> None
         | Some (Thrown e s') \<Rightarrow> Some (Thrown e s')
         | Some (Returned s') \<Rightarrow> Some (Returned (blend_all s')))"

text \<open>
  The driver outside the stepper calls \<open>simulate\<close> once per displayed frame;
  \<open>simulate_frames\<close> is that sequence of calls, ended by the first throw.
\<close>

fun simulate_frames ::
  "(real \<Rightarrow> 'm simulation_scheme \<Rightarrow> 'm simulation_scheme outcome) \<Rightarrow> real list
     \<Rightarrow> 'm simulation_scheme \<Rightarrow> 'm simulation_scheme outcome option" where
  "simulate_frames upd [] s = Some (Returned s)"
| "simulate_frames upd (f # fs) s =
     (case simulate upd f s of
        None \<Rightarrow> None
      | Some (Thrown e s') \<Rightarrow> Some (Thrown e s')
      | Some (Returned s') \<Rightarrow> simulate_frames upd fs s')"

text \<open>
  The clock of a stepper: accumulator, time scale, simulation time, step size and step
  counter. A callback keeps the clock when it leaves these five fields as they were,
  whether it returns or throws; it returns keeping the clock when moreover it never throws.
\<close>

definition clock_of :: "'m simulation_scheme \<Rightarrow> real \<times> real \<times> real \<times> real \<times> nat" where
  "clock_of s = (time_accumulator s, time_scale s, t s, dt s, steps_taken s)"

definition keeps_clock ::
  "(real \<Rightarrow> 'm simulation_scheme \<Rightarrow> 'm simulation_scheme outcome) \<Rightarrow> bool" where
  "keeps_clock upd = (\<forall>d s. clock_of (state_of (upd d s)) = clock_of s)"

definition returns_keeping_clock ::
  "(real \<Rightarrow> 'm simulation_scheme \<Rightarrow> 'm simulation_scheme outcome) \<Rightarrow> bool" where
  "returns_keeping_clock upd = (\<forall>d s. \<exists>s'. upd d s = Returned s' \<and> clock_of s' = clock_of s)"

section \<open>The stepper on IEEE doubles\<close>

text \<open>
  A JavaScript number is an IEEE binary64 value, and every arithmetic operation returns the
  exact result rounded to the nearest such value, ties going to the even significand.
  \<open>binary64\<close> is that rounding for a significand of 53 bits: the exponent \<open>e\<close> puts
  \<open>\<bar>x\<bar> / 2 powr e\<close> between \<open>2 ^ 52\<close> and \<open>2 ^ 53\<close>, where it is rounded to an integer.
  The exponent is not bounded, so subnormal numbers, overflow to infinity and NaN are
  outside the model; the stepper's values are far from those ranges.
  The exponent is read off the logarithm; lemma \<open>binary64_eval\<close> computes the rounding
  of a given number from two powers of two that enclose it.
\<close>

definition round_half_even :: "real \<Rightarrow> int" where
  "round_half_even y =
     (let n = \<lfloor>y\<rfloor>; r = y - of_int n
      in if r < 1 / 2 then n else if 1 / 2 < r then n + 1 else if even n then n else n + 1)"

definition binary64 :: "real \<Rightarrow> real" where
  "binary64 x =
     (if x = 0 then 0
      else (let e = \<lfloor>log 2 \<bar>x\<bar>\<rfloor> - 52
            in sgn x * of_int (round_half_even (\<bar>x\<bar> / 2 powr of_int e)) * 2 powr of_int e))"

text \<open>
  \<open>Simulation.simulate\<close> once more, with every sum, difference, product and quotient of
  lines 23 to 43 rounded, and the literal \<open>0.1\<close> read as the double next to one tenth. The
  frame time and the fields of the state are doubles here: the constructor's \<open>dt\<close> is
  \<open>binary64 (1 / 20)\<close>. \<open>Math.min\<close>, \<open>Math.abs\<close>, \<open>Math.sign\<close>, the comparison and the
  integer count of steps are exact on doubles.
  What \<open>advance\<close> and \<open>blend_state\<close> compute inside a body stays exact: this section
  follows the clock of the stepper, which no body writes.
\<close>

definition accumulate_f64 :: "real \<Rightarrow> 'm simulation_scheme \<Rightarrow> real \<times> 'm simulation_scheme" where
  "accumulate_f64 frame_time s =
     (let frame_time = binary64 (time_scale s * frame_time)
      in (frame_time,
          s\<lparr>time_accumulator :=
               binary64 (time_accumulator s + min frame_time (binary64 (1 / 10)))\<rparr>))"

definition sub_step_end_f64 :: "real \<Rightarrow> 'm simulation_scheme \<Rightarrow> 'm simulation_scheme" where
  "sub_step_end_f64 frame_time s1 =
     (let s2 = s1\<lparr>bodies := map (advance (dt s1)) (bodies s1)\<rparr>;
          s3 = s2\<lparr>t := binary64 (t s2 + binary64 (sgn frame_time * dt s2))\<rparr>;
          s4 = s3\<lparr>time_accumulator :=
                   binary64 (time_accumulator s3 - binary64 (sgn frame_time * dt s3))\<rparr>
      in s4\<lparr>steps_taken := steps_taken s4 + 1\<rparr>)"

partial_function (option) sub_steps_f64 ::
  "(real \<Rightarrow> 'm simulation_scheme \<Rightarrow> 'm simulation_scheme outcome) \<Rightarrow> real
     \<Rightarrow> 'm simulation_scheme \<Rightarrow> 'm simulation_scheme outcome option" where
  "sub_steps_f64 upd frame_time s =
     (if \<bar>time_accumulator s\<bar> \<ge> dt s then
        (case upd (dt s) s of
           Thrown e s' \<Rightarrow> Some (Thrown e s')
         | Returned s1 \<Rightarrow> sub_steps_f64 upd frame_time (sub_step_end_f64 frame_time s1))
      else Some (Returned s))"

definition blend_all_f64 :: "'m simulation_scheme \<Rightarrow> 'm simulation_scheme" where
  "blend_all_f64 s =
     (let alpha = binary64 (time_accumulator s / dt s)
      in s\<lparr>bodies := map (blend_state alpha) (bodies s)\<rparr>)"

definition simulate_f64 ::
  "(real \<Rightarrow> 'm simulation_scheme \<Rightarrow> 'm simulation_scheme outcome) \<Rightarrow> real
     \<Rightarrow> 'm simulation_scheme \<Rightarrow> 'm simulation_scheme outcome option" where
  "simulate_f64 upd frame_time s =
     (let (frame_time, s0) = accumulate_f64 frame_time s
      in case sub_steps_f64 upd frame_time s0 of
           None \<Rightarrow> None
         | Some (Thrown e s') \<Rightarrow> Some (Thrown e s')
         | Some (Returned s') \<Rightarrow> Some (Returned (blend_all_f64 s')))"

fun simulate_frames_f64 ::
  "(real \<Rightarrow> 'm simulation_scheme \<Rightarrow> 'm simulation_scheme outcome) \<Rightarrow> real list
     \<Rightarrow> 'm simulation_scheme \<Rightarrow> 'm simulation_scheme outcome option" where
  "simulate_frames_f64 upd [] s = Some (Returned s)"
| "simulate_frames_f64 upd (f # fs) s =
     (case simulate_f64 upd f s of
        None \<Rightarrow> None
      | Some (Thrown e s') \<Rightarrow> Some (Thrown e s')
      | Some (Returned s') \<Rightarrow> simulate_frames_f64 upd fs s')"

section \<open>The rain pool: class TotoroScene\<close>

text \<open>
  \<open>final_project.js\<close> holds two versions of the scene, one after the other: the first at
  lines 64 to 283, the current one at lines 598 to 870. The record has the scalar fields
  of both (\<open>materials_rain\<close> is \<open>this.materials.rain\<close>, which only the first version
  replaces; \<open>pickPurpleUmbrella\<close> is the field of the mouse controls). Shapes, materials
  and transformation matrices are handed to the renderer and are not modelled.
\<close>

record totoro_scene = simulation +
  angle :: real
  angleSatsuki :: real
  scene :: nat
  time :: real
  time_diff :: real
  paused :: bool
  totoroPos :: real
  totoroPosY :: real
  totoroUmbrellaPos_x :: real
  totoroUmbrellaPos_y :: real
  totoroUmbrellaPos_z :: real
  umbrellaState :: bool
  lightOn :: bool
  totoroJump :: bool
  totoroIsJumping :: bool
  totoroJump_start :: real
  normal_rain_count :: nat
  jump_rain_count :: nat
  rain_count :: nat
  totoro_leg_angle :: real
  totoro_facing_angle :: real
  pickPurpleUmbrella :: bool
  materials_rain :: material

definition TotoroScene_new :: "(nat \<Rightarrow> real) \<Rightarrow> totoro_scene" where
  "TotoroScene_new rnd =
     \<lparr>time_accumulator = 0, time_scale = 1, t = 0, dt = 1 / 20, bodies = [], steps_taken = 0,
      raining = True, random = rnd, random_calls = 0,
      angle = 0.1, angleSatsuki = 1.1, scene = 1, time = 0, time_diff = 0, paused = False,
      totoroPos = 20, totoroPosY = 1.1,
      totoroUmbrellaPos_x = - 4, totoroUmbrellaPos_y = 2, totoroUmbrellaPos_z = 0,
      umbrellaState = True, lightOn = False,
      totoroJump = False, totoroIsJumping = False, totoroJump_start = 0,
      normal_rain_count = 500, jump_rain_count = 1000, rain_count = 500,
      totoro_leg_angle = 0, totoro_facing_angle = 0, pickPurpleUmbrella = False,
      materials_rain = rain\<rparr>"

subsection \<open>\<open>update_state\<close>, lines 750 to 784: the pool\<close>

text \<open>Lines 751 to 754.\<close>

definition advance_time :: "real \<Rightarrow> 'm totoro_scene_scheme \<Rightarrow> 'm totoro_scene_scheme" where
  "advance_time d s =
     (let s1 = s\<lparr>time := time s + d\<rparr>
      in if paused s1 then s1\<lparr>time_diff := time_diff s1 + d\<rparr> else s1)"

text \<open>Lines 759 to 767: one pass of the body of the \<open>while\<close> loop.\<close>

definition spawn :: "'m totoro_scene_scheme \<Rightarrow> 'm totoro_scene_scheme" where
  "spawn s =
     (let m = (if rain_count s = jump_rain_count s then rainBright else rain);
          (c, s1) = randomized (0, 10, 0) 40 s;
          v = times_vec3 (normalized (0, - 1, 0)) 1.3;
          (w, s2) = Math_random s1
      in s2\<lparr>bodies := bodies s2 @ [emplace sphere m (0.05, 0.05, 0.05) c v w]\<rparr>)"

text \<open>
  What lines 761, 762 (and 198, 199 of the first version) make of the draws \<open>rnd\<close>: a
  body straight down at speed \<open>c\<close>, its centre \<open>vec3(0, 10, 0).randomized(40)\<close> from
  three consecutive draws.
\<close>

definition fresh_drop :: "real \<Rightarrow> (nat \<Rightarrow> real) \<Rightarrow> body \<Rightarrow> bool" where
  "fresh_drop c rnd b \<longleftrightarrow> linear_velocity b = (0, - c, 0) \<and>
     (\<exists>k. center b = (40 * (rnd k - 0.5), 10 + 40 * (rnd (k + 1) - 0.5), 40 * (rnd (k + 2) - 0.5)))"

text \<open>Lines 758 to 768: the \<open>while\<close> loop.\<close>

function replenish :: "'m totoro_scene_scheme \<Rightarrow> 'm totoro_scene_scheme" where
  "replenish s = (if length (bodies s) < rain_count s then replenish (spawn s) else s)"
  by pat_completeness auto
termination
  by (relation "measure (\<lambda>s. rain_count s - length (bodies s))")
     (auto simp: spawn_def randomized_def Math_random_def Let_def split_def)

declare replenish.simps [simp del]

text \<open>Lines 769 and 770.\<close>

definition reset_rain_count :: "'m totoro_scene_scheme \<Rightarrow> 'm totoro_scene_scheme" where
  "reset_rain_count s =
     (if rain_count s = jump_rain_count s then s\<lparr>rain_count := normal_rain_count s\<rparr> else s)"

text \<open>Lines 772 to 775: \<open>b.linear_velocity[1] += dt * -1\<close>.\<close>

definition gravity :: "real \<Rightarrow> body \<Rightarrow> body" where
  "gravity d b =
     b\<lparr>linear_velocity :=
         (vec_x (linear_velocity b), vec_y (linear_velocity b) + d * - 1, vec_z (linear_velocity b))\<rparr>"

text \<open>Line 777: the predicate of the filter.\<close>

definition keep_alive :: "body \<Rightarrow> bool" where
  "keep_alive b \<longleftrightarrow> vec_y (linear_velocity b) \<le> 0 \<or> norm_vec3 (linear_velocity b) > 1.2"

text \<open>Lines 780 to 783: the floor.\<close>

definition floor_response :: "body \<Rightarrow> body" where
  "floor_response b =
     (if vec_y (center b) < 0.5 \<and> vec_y (linear_velocity b) < 0 then
        (let b1 = b\<lparr>linear_velocity :=
                     (vec_x (linear_velocity b), vec_y (linear_velocity b) * - 0.2,
                      vec_z (linear_velocity b))\<rparr>
         in b1\<lparr>center := (vec_x (center b1), 0.5, vec_z (center b1))\<rparr>)
      else b)"

text \<open>
  The bodies as the filter of line 777 meets them: after time has advanced, the pool has
  been replenished and gravity has been applied.
\<close>

definition bodies_at_filter :: "real \<Rightarrow> 'm totoro_scene_scheme \<Rightarrow> body list" where
  "bodies_at_filter d s = map (gravity d) (bodies (replenish (advance_time d s)))"

text \<open>Lines 751 to 784.\<close>

definition pool_step :: "real \<Rightarrow> 'm totoro_scene_scheme \<Rightarrow> 'm totoro_scene_scheme" where
  "pool_step d s =
     (let s1 = reset_rain_count (replenish (advance_time d s));
          s2 = s1\<lparr>bodies := map (gravity d) (bodies s1)\<rparr>;
          s3 = s2\<lparr>bodies := filter keep_alive (bodies s2)\<rparr>
      in s3\<lparr>bodies := map floor_response (bodies s3)\<rparr>)"

subsection \<open>\<open>update_state\<close>, lines 786 to 870: the scripted timeline\<close>

definition totoro_walk :: "real \<Rightarrow> 'm totoro_scene_scheme \<Rightarrow> 'm totoro_scene_scheme" where
  "totoro_walk dPos s =
     (let s1 = s\<lparr>totoroPos := totoroPos s + dPos\<rparr>
      in s1\<lparr>totoro_leg_angle := totoro_leg_angle s1 + 1\<rparr>)"

definition totoro_jump :: "real \<Rightarrow> 'm totoro_scene_scheme \<Rightarrow> 'm totoro_scene_scheme" where
  "totoro_jump tm s =
     (let s1 = s\<lparr>totoroPosY := 2.5 * (tm - totoroJump_start s)
                    - 1 * (tm - totoroJump_start s) * (tm - totoroJump_start s) + 1.1\<rparr>
      in if totoroPosY s1 < 1.1 then
           s1\<lparr>totoroPosY := 1.1, totoroJump := False, totoroJump_start := 0,
              totoroIsJumping := False, rain_count := jump_rain_count s1\<rparr>
         else s1)"

text \<open>Lines 786 to 789.\<close>

definition scene_one :: "'m totoro_scene_scheme \<Rightarrow> 'm totoro_scene_scheme" where
  "scene_one s = (if time s > 0 \<and> time s < 10 then s\<lparr>scene := 1\<rparr> else s)"

text \<open>Lines 790 to 792.\<close>

definition light_on :: "'m totoro_scene_scheme \<Rightarrow> 'm totoro_scene_scheme" where
  "light_on s = (if time s > 10 \<and> time s < 10.1 then s\<lparr>lightOn := True\<rparr> else s)"

text \<open>Lines 793 to 796.\<close>

definition scene_two :: "'m totoro_scene_scheme \<Rightarrow> 'm totoro_scene_scheme" where
  "scene_two s = (if time s > 20 \<and> time s < 40 then s\<lparr>scene := 2\<rparr> else s)"

text \<open>Lines 797 to 802.\<close>

definition walk_in :: "'m totoro_scene_scheme \<Rightarrow> 'm totoro_scene_scheme" where
  "walk_in s =
     (if time s > 40 \<and> time s < 80 \<and> totoroPos s > 0 then
        totoro_walk (- 0.03) (s\<lparr>totoro_facing_angle := - pi / 2\<rparr>)
      else s)"

text \<open>Lines 803 to 807.\<close>

definition turn_and_pause :: "'m totoro_scene_scheme \<Rightarrow> 'm totoro_scene_scheme" where
  "turn_and_pause s =
     (if totoroPos s \<le> 0 \<and> totoro_facing_angle s < 0 then
        (let s1 = s\<lparr>totoro_facing_angle := totoro_facing_angle s + 0.006\<rparr>
         in s1\<lparr>paused := True\<rparr>)
      else s)"

text \<open>Lines 813 to 829, inside \<open>if (this.paused)\<close>.\<close>

definition umbrellas :: "'m totoro_scene_scheme \<Rightarrow> 'm totoro_scene_scheme" where
  "umbrellas s =
     (if umbrellaState s then
        (if \<not> pickPurpleUmbrella s \<and> angleSatsuki s < 1.1 then
           s\<lparr>angleSatsuki := angleSatsuki s + 0.1\<rparr>
         else if pickPurpleUmbrella s \<and> angle s < 1.1 then s\<lparr>angle := angle s + 0.1\<rparr>
         else s)
      else if \<not> umbrellaState s then
        (if \<not> pickPurpleUmbrella s \<and> angleSatsuki s > 0.2 then
           s\<lparr>angleSatsuki := angleSatsuki s - 0.1\<rparr>
         else if pickPurpleUmbrella s \<and> angle s > 0.2 then s\<lparr>angle := angle s - 0.1\<rparr>
         else s)
      else s)"

text \<open>Lines 832 to 838, inside \<open>if (this.paused)\<close>.\<close>

definition jumping :: "'m totoro_scene_scheme \<Rightarrow> 'm totoro_scene_scheme" where
  "jumping s =
     (if totoroJump s then
        (let s1 = s\<lparr>totoroIsJumping := True\<rparr>;
             s2 = (if totoroJump_start s1 = 0 then s1\<lparr>totoroJump_start := time s1\<rparr> else s1)
         in totoro_jump (time s2) s2)
      else s)"

text \<open>Lines 810 to 839.\<close>

definition interactivity :: "'m totoro_scene_scheme \<Rightarrow> 'm totoro_scene_scheme" where
  "interactivity s = (if paused s then jumping (umbrellas s) else s)"

text \<open>Lines 843 to 846.\<close>

definition open_umbrella :: "'m totoro_scene_scheme \<Rightarrow> 'm totoro_scene_scheme" where
  "open_umbrella s =
     (if time s - time_diff s > 80 \<and> angle s < 1.1 then s\<lparr>angle := angle s + 0.01\<rparr> else s)"

text \<open>Lines 847 to 849.\<close>

definition hand_over :: "'m totoro_scene_scheme \<Rightarrow> 'm totoro_scene_scheme" where
  "hand_over s =
     (if 100 < time s - time_diff s \<and> time s - time_diff s \<le> 103 then
        s\<lparr>totoroUmbrellaPos_x := totoroUmbrellaPos_x s + 0.03\<rparr>
      else s)"

text \<open>Lines 850 to 854.\<close>

definition turn_away :: "'m totoro_scene_scheme \<Rightarrow> 'm totoro_scene_scheme" where
  "turn_away s =
     (if time s - time_diff s > 100 \<and> totoro_facing_angle s < pi / 2 then
        s\<lparr>totoro_facing_angle := totoro_facing_angle s + 0.005\<rparr>
      else s)"

text \<open>Lines 855 to 857.\<close>

definition carry_umbrella :: "'m totoro_scene_scheme \<Rightarrow> 'm totoro_scene_scheme" where
  "carry_umbrella s =
     (if time s - time_diff s > 110 \<and> time s - time_diff s < 135 then
        s\<lparr>totoroUmbrellaPos_x := totoroUmbrellaPos_x s + 0.03\<rparr>
      else s)"

text \<open>Lines 858 to 868.\<close>

definition walk_out :: "'m totoro_scene_scheme \<Rightarrow> 'm totoro_scene_scheme" where
  "walk_out s =
     (if time s - time_diff s > 113 \<and> time s - time_diff s < 135 then
        (let s1 = totoro_walk 0.03 s;
             s2 = (if totoroUmbrellaPos_y s1 \<le> 3 then
                     s1\<lparr>totoroUmbrellaPos_y := totoroUmbrellaPos_y s1 + 0.05\<rparr>
                   else s1)
         in if totoroUmbrellaPos_z s2 \<le> 1 then
              s2\<lparr>totoroUmbrellaPos_z := totoroUmbrellaPos_z s2 + 0.05\<rparr>
            else s2)
      else s)"

text \<open>Lines 842 to 869.\<close>

definition rest_of_scene :: "'m totoro_scene_scheme \<Rightarrow> 'm totoro_scene_scheme" where
  "rest_of_scene s =
     (if \<not> paused s then
        walk_out (carry_umbrella (turn_away (hand_over (open_umbrella s))))
      else s)"

text \<open>Lines 786 to 870.\<close>

definition timeline :: "'m totoro_scene_scheme \<Rightarrow> 'm totoro_scene_scheme" where
  "timeline s =
     rest_of_scene (interactivity (turn_and_pause (walk_in (scene_two (light_on (scene_one s))))))"

text \<open>\<open>TotoroScene.update_state\<close>, lines 750 to 870. It never throws.\<close>

definition TotoroScene_update_state ::
  "real \<Rightarrow> 'm totoro_scene_scheme \<Rightarrow> 'm totoro_scene_scheme outcome" where
  "TotoroScene_update_state d s = Returned (timeline (pool_step d s))"

subsection \<open>The first version of the pool, lines 188 to 214\<close>

text \<open>Lines 197 to 199: one pass of the body of the \<open>while\<close> loop.\<close>

definition spawn_v1 :: "'m totoro_scene_scheme \<Rightarrow> 'm totoro_scene_scheme" where
  "spawn_v1 s =
     (let (c, s1) = randomized (0, 10, 0) 40 s;
          v = times_vec3 (normalized (0, - 1, 0)) 3;
          (w, s2) = Math_random s1
      in s2\<lparr>bodies := bodies s2 @ [emplace cylinder (materials_rain s) (0.05, 0.05, 0.05) c v w]\<rparr>)"

function replenish_v1 :: "'m totoro_scene_scheme \<Rightarrow> 'm totoro_scene_scheme" where
  "replenish_v1 s = (if length (bodies s) < rain_count s then replenish_v1 (spawn_v1 s) else s)"
  by pat_completeness auto
termination
  by (relation "measure (\<lambda>s. rain_count s - length (bodies s))")
     (auto simp: spawn_v1_def randomized_def Math_random_def Let_def split_def)

declare replenish_v1.simps [simp del]

text \<open>Lines 201 to 204.\<close>

definition reset_rain_count_v1 :: "'m totoro_scene_scheme \<Rightarrow> 'm totoro_scene_scheme" where
  "reset_rain_count_v1 s =
     (if rain_count s > normal_rain_count s then
        s\<lparr>rain_count := normal_rain_count s, materials_rain := rain\<rparr>
      else s)"

text \<open>Lines 206 to 212: gravity, then the floor at height 0, for one body.\<close>

definition forces_v1 :: "real \<Rightarrow> body \<Rightarrow> body" where
  "forces_v1 d b =
     (let b1 = gravity d b
      in if vec_y (center b1) < 0 \<and> vec_y (linear_velocity b1) < 0 then
           b1\<lparr>linear_velocity :=
                (vec_x (linear_velocity b1), vec_y (linear_velocity b1) * - 0.2,
                 vec_z (linear_velocity b1))\<rparr>
         else b1)"

text \<open>Line 214, and line 38 of \<open>assignment3.js\<close>: the predicate of the filter.\<close>

definition keep_alive_v1 :: "body \<Rightarrow> bool" where
  "keep_alive_v1 b \<longleftrightarrow> norm_vec3 (center b) < 50 \<and> norm_vec3 (linear_velocity b) > 3"

text \<open>
  Lines 188 to 214. The timeline of the first version (lines 216 to 283) follows; it
  neither reads nor writes \<open>this.bodies\<close> and is not modelled.
\<close>

definition pool_step_v1 :: "real \<Rightarrow> 'm totoro_scene_scheme \<Rightarrow> 'm totoro_scene_scheme" where
  "pool_step_v1 d s =
     (let s1 = reset_rain_count_v1 (replenish_v1 (advance_time d s));
          s2 = s1\<lparr>bodies := map (forces_v1 d) (bodies s1)\<rparr>
      in s2\<lparr>bodies := filter keep_alive_v1 (bodies s2)\<rparr>)"

section \<open>class Assignment3\<close>

text \<open>
  \<open>assignment3.js\<close> (and its second copy among the unnamed sources): a pool of 30
  bodies whose starting velocity is jittered. The class adds no scalar field to the
  stepper's.
\<close>

text \<open>Lines 25 to 27: one pass of the body of the \<open>while\<close> loop.\<close>

definition spawn_a3 :: "'m simulation_scheme \<Rightarrow> 'm simulation_scheme" where
  "spawn_a3 s =
     (let (c, s1) = randomized (0, 10, 0) 40 s;
          (j, s2) = randomized (0, - 1, 0) 2 s1;
          v = times_vec3 (normalized j) 3;
          (w, s3) = Math_random s2
      in s3\<lparr>bodies := bodies s3 @ [emplace cylinder fake_bump_map (0.2, 0.2, 0.2) c v w]\<rparr>)"

function replenish_a3 :: "'m simulation_scheme \<Rightarrow> 'm simulation_scheme" where
  "replenish_a3 s = (if length (bodies s) < 30 then replenish_a3 (spawn_a3 s) else s)"
  by pat_completeness auto
termination
  by (relation "measure (\<lambda>s. 30 - length (bodies s))")
     (auto simp: spawn_a3_def randomized_def Math_random_def Let_def split_def)

declare replenish_a3.simps [simp del]

text \<open>Lines 29 to 35: gravity, then the floor at height -8, for one body.\<close>

definition forces_a3 :: "real \<Rightarrow> body \<Rightarrow> body" where
  "forces_a3 d b =
     (let b1 = b\<lparr>linear_velocity :=
                  (vec_x (linear_velocity b), vec_y (linear_velocity b) + d * - 9.8,
                   vec_z (linear_velocity b))\<rparr>
      in if vec_y (center b1) < - 8 \<and> vec_y (linear_velocity b1) < 0 then
           b1\<lparr>linear_velocity :=
                (vec_x (linear_velocity b1), vec_y (linear_velocity b1) * - 0.8,
                 vec_z (linear_velocity b1))\<rparr>
         else b1)"

text \<open>\<open>Assignment3.update_state\<close>, lines 21 to 39.\<close>

definition Assignment3_update_state ::
  "real \<Rightarrow> 'm simulation_scheme \<Rightarrow> 'm simulation_scheme outcome" where
  "Assignment3_update_state d s =
     (let s1 = replenish_a3 s;
          s2 = s1\<lparr>bodies := map (forces_a3 d) (bodies s1)\<rparr>
      in Returned (s2\<lparr>bodies := filter keep_alive_v1 (bodies s2)\<rparr>))"

section \<open>The spawn velocity in the spec's words\<close>

text \<open>
  The spec's spawn velocity: "unit down vector perturbed by bounded random jitter,
  normalized, scaled to a speed constant". \<open>jitter rnd k\<close> is what \<open>randomized(2)\<close> adds
  to a vector when its three draws are \<open>rnd k\<close>, \<open>rnd (k + 1)\<close> and \<open>rnd (k + 2)\<close>;
  \<open>jittered_by c rnd b\<close> says that the velocity of \<open>b\<close> is the down vector with the
  jitter of three consecutive draws of \<open>rnd\<close>, normalised and scaled to the speed \<open>c\<close>.
\<close>

definition jitter :: "(nat \<Rightarrow> real) \<Rightarrow> nat \<Rightarrow> vec3" where
  "jitter rnd k = (2 * (rnd k - 0.5), 2 * (rnd (k + 1) - 0.5), 2 * (rnd (k + 2) - 0.5))"

definition jittered_by :: "real \<Rightarrow> (nat \<Rightarrow> real) \<Rightarrow> body \<Rightarrow> bool" where
  "jittered_by c rnd b \<longleftrightarrow>
     (\<exists>k. linear_velocity b = times_vec3 (normalized (plus_vec3 (0, - 1, 0) (jitter rnd k))) c)"

section \<open>Concrete bodies and scenes\<close>

text \<open>A second random source for concrete runs: every draw is one quarter.\<close>

definition quarter_random :: "nat \<Rightarrow> real" where
  "quarter_random n = 1 / 4"

text \<open>A raindrop of the current scene above the origin, at height \<open>h\<close>, with vertical velocity \<open>v\<close>.\<close>

definition drop_at :: "real \<Rightarrow> real \<Rightarrow> body" where
  "drop_at h v = emplace sphere rain (0.05, 0.05, 0.05) (0, h, 0) (0, v, 0) 0"

text \<open>The scene as constructed, holding the bodies \<open>bs\<close>.\<close>

definition scene_with :: "body list \<Rightarrow> totoro_scene" where
  "scene_with bs = (TotoroScene_new half_random)\<lparr>bodies := bs\<rparr>"

text \<open>The scene as constructed on doubles: its \<open>dt\<close> is the double next to one twentieth.\<close>

definition TotoroScene_new_f64 :: "(nat \<Rightarrow> real) \<Rightarrow> totoro_scene" where
  "TotoroScene_new_f64 rnd = (TotoroScene_new rnd)\<lparr>dt := binary64 (1 / 20)\<rparr>"

text \<open>
  The pool after a jump: the burst has filled it to \<open>jump_rain_count\<close> bodies and line 770
  has set the target back to \<open>normal_rain_count\<close>.
\<close>

definition crowded :: totoro_scene where
  "crowded = scene_with (replicate 1000 (drop_at 10 (- 1.35)))"

text \<open>
  A drop that reaches the floor at speed 7.5, after the step in which it bounces: gravity,
  the floor response, and the stepper's \<open>advance\<close>.
\<close>

definition bounced :: body where
  "bounced = advance (1 / 20) (floor_response (gravity (1 / 20) (drop_at 0.4 (- 7.5))))"

section \<open>Properties\<close>

subsection \<open>The stepper's loop\<close>

lemma clock_of_sub_step_end:
  "clock_of (sub_step_end f s) =
     (time_accumulator s - sgn f * dt s, time_scale s, t s + sgn f * dt s, dt s, steps_taken s + 1)"
  by (simp add: clock_of_def sub_step_end_def Let_def)

lemma clock_of_eqD:
  "clock_of s' = clock_of s \<Longrightarrow>
     time_accumulator s' = time_accumulator s \<and> time_scale s' = time_scale s \<and> t s' = t s \<and>
     dt s' = dt s \<and> steps_taken s' = steps_taken s"
  by (simp add: clock_of_def)

lemma sub_steps_rest:
  "\<bar>time_accumulator s\<bar> < dt s \<Longrightarrow> sub_steps upd f s = Some (Returned s)"
  by (subst sub_steps.simps) simp

lemma sub_steps_thrown:
  "dt s \<le> \<bar>time_accumulator s\<bar> \<Longrightarrow> upd (dt s) s = Thrown e s' \<Longrightarrow>
     sub_steps upd f s = Some (Thrown e s')"
  by (subst sub_steps.simps) simp

lemma sub_steps_returned:
  "dt s \<le> \<bar>time_accumulator s\<bar> \<Longrightarrow> upd (dt s) s = Returned s1 \<Longrightarrow>
     sub_steps upd f s = sub_steps upd f (sub_step_end f s1)"
  by (subst sub_steps.simps) simp

text \<open>
  The loop counts down: when the accumulator, taken in the direction \<open>sg\<close> of the frame
  time (1 or -1), lies between \<open>n\<close> and \<open>n + 1\<close> steps, the loop ends after at most
  \<open>n\<close> passes, after exactly \<open>n\<close> when it returns, and \<open>k\<close> passes move the clock
  by \<open>k\<close> steps.
\<close>

lemma sub_steps_count:
  assumes K: "keeps_clock upd"
    and sg: "sgn f = sg" "sg = 1 \<or> sg = - 1"
  shows "0 < dt s \<Longrightarrow> real n * dt s \<le> sg * time_accumulator s \<Longrightarrow>
         sg * time_accumulator s < real (Suc n) * dt s \<Longrightarrow>
         \<exists>out k. sub_steps upd f s = Some out \<and> k \<le> n \<and> (\<forall>s'. out = Returned s' \<longrightarrow> k = n) \<and>
           (returns_keeping_clock upd \<longrightarrow> (\<exists>s'. out = Returned s')) \<and>
           clock_of (state_of out) =
             (time_accumulator s - sg * real k * dt s, time_scale s, t s + sg * real k * dt s,
              dt s, steps_taken s + k)"
proof (induction n arbitrary: s)
  case 0
  then have "\<bar>time_accumulator s\<bar> < dt s" using sg(2) by auto
  then have "sub_steps upd f s = Some (Returned s)" by (rule sub_steps_rest)
  then show ?case by (auto simp: clock_of_def)
next
  case (Suc n)
  have big: "dt s \<le> \<bar>time_accumulator s\<bar>"
  proof -
    have "dt s \<le> real (Suc n) * dt s" using Suc.prems(1) by simp
    then have "dt s \<le> sg * time_accumulator s" using Suc.prems(2) by linarith
    then show ?thesis using sg(2) by auto
  qed
  show ?case
  proof (cases "upd (dt s) s")
    case (Thrown e s')
    have c: "clock_of s' = clock_of s" using K Thrown unfolding keeps_clock_def
      by (metis state_of.simps(2))
    have "sub_steps upd f s = Some (Thrown e s')" using sub_steps_thrown[of s upd e s' f] big Thrown by simp
    moreover have "\<not> returns_keeping_clock upd"
      using Thrown unfolding returns_keeping_clock_def by (metis outcome.distinct(1))
    ultimately show ?thesis using c
      by (intro exI[of _ "Thrown e s'"] exI[of _ 0]) (simp add: clock_of_def)
  next
    case (Returned s1)
    have c: "clock_of s1 = clock_of s" using K Returned unfolding keeps_clock_def
      by (metis state_of.simps(1))
    note c' = clock_of_eqD[OF c]
    let ?s2 = "sub_step_end f s1"
    have c2: "clock_of ?s2 =
      (time_accumulator s - sg * dt s, time_scale s, t s + sg * dt s, dt s, steps_taken s + 1)"
      using c' sg(1) by (simp add: clock_of_sub_step_end)
    then have d2: "dt ?s2 = dt s" and a2: "time_accumulator ?s2 = time_accumulator s - sg * dt s"
      and ts2: "time_scale ?s2 = time_scale s" and t2: "t ?s2 = t s + sg * dt s"
      and st2: "steps_taken ?s2 = steps_taken s + 1"
      by (simp_all add: clock_of_def)
    have sgsq: "sg * sg = 1" using sg(2) by auto
    have e: "sg * time_accumulator ?s2 = sg * time_accumulator s - dt s"
      using sgsq by (simp add: a2 algebra_simps)
    have p1: "0 < dt ?s2" using Suc.prems(1) d2 by simp
    have p2: "real n * dt ?s2 \<le> sg * time_accumulator ?s2"
      using Suc.prems(2) by (simp add: e d2 algebra_simps)
    have p3: "sg * time_accumulator ?s2 < real (Suc n) * dt ?s2"
      using Suc.prems(3) by (simp add: e d2 algebra_simps)
    from Suc.IH[OF p1 p2 p3] obtain out k where
      o: "sub_steps upd f ?s2 = Some out" "k \<le> n" "\<forall>s'. out = Returned s' \<longrightarrow> k = n"
        "returns_keeping_clock upd \<longrightarrow> (\<exists>s'. out = Returned s')"
        "clock_of (state_of out) =
             (time_accumulator ?s2 - sg * real k * dt ?s2, time_scale ?s2, t ?s2 + sg * real k * dt ?s2,
              dt ?s2, steps_taken ?s2 + k)" by blast
    have "sub_steps upd f s = Some out" using sub_steps_returned[of s upd s1 f] big Returned o(1) by simp
    moreover have "clock_of (state_of out) =
             (time_accumulator s - sg * real (Suc k) * dt s, time_scale s, t s + sg * real (Suc k) * dt s,
              dt s, steps_taken s + Suc k)"
      using o(5) by (simp add: d2 a2 ts2 t2 st2 algebra_simps)
    ultimately show ?thesis using o(2,3,4)
      by (intro exI[of _ out] exI[of _ "Suc k"]) simp
  qed
qed


lemma returns_keeping_clock_keeps: "returns_keeping_clock upd \<Longrightarrow> keeps_clock upd"
  unfolding returns_keeping_clock_def keeps_clock_def
  by (metis state_of.simps(1))

lemma keeps_clock_base: "keeps_clock Simulation_update_state"
  by (simp add: keeps_clock_def Simulation_update_state_def)

lemma clock_of_blend_all: "clock_of (blend_all s) = clock_of s"
  by (simp add: blend_all_def clock_of_def Let_def)

lemma bodies_blend_all:
  "bodies (blend_all s) = map (blend_state (time_accumulator s / dt s)) (bodies s)"
  by (simp add: blend_all_def Let_def)

lemma simulate_unfold:
  "simulate upd f s =
     (case sub_steps upd (time_scale s * f)
             (s\<lparr>time_accumulator := time_accumulator s + min (time_scale s * f) 0.1\<rparr>) of
        None \<Rightarrow> None
      | Some (Thrown e s') \<Rightarrow> Some (Thrown e s')
      | Some (Returned s') \<Rightarrow> Some (Returned (blend_all s')))"
  by (simp add: simulate_def accumulate_def Let_def)

text \<open>Exactly n sub-steps in the direction sg, for a callback that returns.\<close>

lemma sub_steps_exact:
  assumes R: "returns_keeping_clock upd"
    and sg: "sgn f = sg" "sg = 1 \<or> sg = - 1"
    and d: "0 < dt s"
    and lo: "real n * dt s \<le> sg * time_accumulator s"
    and hi: "sg * time_accumulator s < real (Suc n) * dt s"
  shows "\<exists>s'. sub_steps upd f s = Some (Returned s') \<and>
           clock_of s' =
             (time_accumulator s - sg * real n * dt s, time_scale s, t s + sg * real n * dt s,
              dt s, steps_taken s + n)"
proof -
  from sub_steps_count[OF returns_keeping_clock_keeps[OF R] sg d lo hi]
  obtain out k where o: "sub_steps upd f s = Some out" "\<forall>s'. out = Returned s' \<longrightarrow> k = n"
    "returns_keeping_clock upd \<longrightarrow> (\<exists>s'. out = Returned s')"
    "clock_of (state_of out) =
             (time_accumulator s - sg * real k * dt s, time_scale s, t s + sg * real k * dt s,
              dt s, steps_taken s + k)" by blast
  from o(3) R obtain s' where s': "out = Returned s'" by blast
  with o(2) have "k = n" by simp
  with o(1,4) s' show ?thesis by simp
qed

lemma simulate_exact:
  assumes R: "returns_keeping_clock upd"
    and sg: "sgn (time_scale s * f) = sg" "sg = 1 \<or> sg = - 1"
    and d: "0 < dt s"
    and lo: "real n * dt s \<le> sg * (time_accumulator s + min (time_scale s * f) 0.1)"
    and hi: "sg * (time_accumulator s + min (time_scale s * f) 0.1) < real (Suc n) * dt s"
  shows "\<exists>s'. simulate upd f s = Some (Returned s') \<and>
           clock_of s' =
             (time_accumulator s + min (time_scale s * f) 0.1 - sg * real n * dt s, time_scale s,
              t s + sg * real n * dt s, dt s, steps_taken s + n)"
proof -
  let ?s0 = "s\<lparr>time_accumulator := time_accumulator s + min (time_scale s * f) 0.1\<rparr>"
  have "\<exists>s'. sub_steps upd (time_scale s * f) ?s0 = Some (Returned s') \<and>
           clock_of s' =
             (time_accumulator ?s0 - sg * real n * dt ?s0, time_scale ?s0, t ?s0 + sg * real n * dt ?s0,
              dt ?s0, steps_taken ?s0 + n)"
    using sg d lo hi by (intro sub_steps_exact[OF R]) simp_all
  then obtain s' where "sub_steps upd (time_scale s * f) ?s0 = Some (Returned s')"
    "clock_of s' = (time_accumulator s + min (time_scale s * f) 0.1 - sg * real n * dt s, time_scale s,
              t s + sg * real n * dt s, dt s, steps_taken s + n)" by auto
  then show ?thesis by (simp add: simulate_unfold clock_of_blend_all)
qed

text \<open>A call with a frame time that is not negative, at time scale 1.\<close>

lemma simulate_nonneg:
  assumes K: "keeps_clock upd"
    and d: "0 < dt s" and a: "0 \<le> time_accumulator s" "time_accumulator s < dt s"
    and ts: "time_scale s = 1" and f: "0 \<le> f"
  shows "\<exists>out. simulate upd f s = Some out \<and> dt (state_of out) = dt s \<and>
           time_scale (state_of out) = 1 \<and> 0 \<le> time_accumulator (state_of out) \<and>
           time_accumulator (state_of out) + real (steps_taken (state_of out)) * dt s =
             time_accumulator s + min f 0.1 + real (steps_taken s) * dt s \<and>
           (returns_keeping_clock upd \<longrightarrow> (\<exists>s'. out = Returned s')) \<and>
           (\<forall>s'. out = Returned s' \<longrightarrow> time_accumulator s' < dt s \<and>
              (\<forall>b\<in>set (bodies s'). drawn_center b =
                 mix (previous_center b) (center b) (time_accumulator s' / dt s')))"
proof -
  let ?a = "time_accumulator s + min f 0.1"
  let ?s0 = "s\<lparr>time_accumulator := ?a\<rparr>"
  have a0: "0 \<le> ?a" using a(1) f by simp
  have "\<exists>out k. sub_steps upd f ?s0 = Some out \<and>
           (\<forall>s'. out = Returned s' \<longrightarrow> time_accumulator s' < dt s) \<and>
           (returns_keeping_clock upd \<longrightarrow> (\<exists>s'. out = Returned s')) \<and>
           0 \<le> time_accumulator (state_of out) \<and>
           clock_of (state_of out) =
             (?a - real k * dt s, 1, t s + sgn f * real k * dt s, dt s, steps_taken s + k)"
  proof (cases "f = 0")
    case True
    then have "\<bar>time_accumulator ?s0\<bar> < dt ?s0" using a by simp
    then have "sub_steps upd f ?s0 = Some (Returned ?s0)" by (rule sub_steps_rest)
    then show ?thesis using a True ts
      by (intro exI[of _ "Returned ?s0"] exI[of _ 0]) (simp add: clock_of_def)
  next
    case False
    then have sg: "sgn f = 1" using f by simp
    define n where "n = nat \<lfloor>?a / dt s\<rfloor>"
    have fl: "0 \<le> \<lfloor>?a / dt s\<rfloor>" using a0 d by simp
    have "real n = of_int \<lfloor>?a / dt s\<rfloor>" using fl by (simp add: n_def)
    then have n1: "real n \<le> ?a / dt s" and n2: "?a / dt s < real n + 1" by linarith+
    have lo: "real n * dt ?s0 \<le> 1 * time_accumulator ?s0"
      using n1 d by (simp add: pos_le_divide_eq)
    have hi: "1 * time_accumulator ?s0 < real (Suc n) * dt ?s0"
      using n2 d by (simp add: pos_divide_less_eq add.commute)
    have d0: "0 < dt ?s0" using d by simp
    from sub_steps_count[OF K sg _ d0 lo hi]
    obtain out k where o: "sub_steps upd f ?s0 = Some out" "k \<le> n"
      "\<forall>s'. out = Returned s' \<longrightarrow> k = n"
      "returns_keeping_clock upd \<longrightarrow> (\<exists>s'. out = Returned s')"
      "clock_of (state_of out) =
             (time_accumulator ?s0 - 1 * real k * dt ?s0, time_scale ?s0, t ?s0 + 1 * real k * dt ?s0,
              dt ?s0, steps_taken ?s0 + k)" by blast
    have acc: "time_accumulator (state_of out) = ?a - real k * dt s"
      using o(5) by (simp add: clock_of_def)
    have "real k * dt s \<le> real n * dt s" using o(2) d by simp
    then have nn: "0 \<le> time_accumulator (state_of out)" using lo acc by simp
    have lt: "time_accumulator s' < dt s" if "out = Returned s'" for s'
    proof -
      have "k = n" using o(3) that by simp
      then show ?thesis using acc that hi by (simp add: algebra_simps)
    qed
    show ?thesis using o(1,4,5) nn lt ts sg
      by (intro exI[of _ out] exI[of _ k]) simp
  qed
  then obtain out k where o: "sub_steps upd f ?s0 = Some out"
    "\<forall>s'. out = Returned s' \<longrightarrow> time_accumulator s' < dt s"
    "returns_keeping_clock upd \<longrightarrow> (\<exists>s'. out = Returned s')"
    "0 \<le> time_accumulator (state_of out)"
    "clock_of (state_of out) =
             (?a - real k * dt s, 1, t s + sgn f * real k * dt s, dt s, steps_taken s + k)"
    by blast
  have su: "simulate upd f s =
     (case Some out of None \<Rightarrow> None | Some (Thrown e s') \<Rightarrow> Some (Thrown e s')
      | Some (Returned s') \<Rightarrow> Some (Returned (blend_all s')))"
    using o(1) ts by (simp add: simulate_unfold)
  show ?thesis
  proof (cases out)
    case (Thrown e s')
    then have "simulate upd f s = Some (Thrown e s')" using su by simp
    then show ?thesis using o(3,4,5) Thrown
      by (intro exI[of _ "Thrown e s'"]) (simp add: clock_of_def algebra_simps)
  next
    case (Returned s')
    then have "simulate upd f s = Some (Returned (blend_all s'))" using su by simp
    moreover have "clock_of (blend_all s') = clock_of s'" by (rule clock_of_blend_all)
    moreover have "\<forall>b\<in>set (bodies (blend_all s')). drawn_center b =
                 mix (previous_center b) (center b) (time_accumulator (blend_all s') / dt (blend_all s'))"
      by (auto simp: blend_all_def Let_def blend_state_def)
    ultimately show ?thesis using o(2,4,5) Returned
      by (intro exI[of _ "Returned (blend_all s')"]) (simp add: clock_of_def algebra_simps)
  qed
qed

lemma simulate_frames_nonneg:
  assumes K: "keeps_clock upd"
  shows "\<forall>f\<in>set fs. 0 \<le> f \<Longrightarrow> 0 < dt s \<Longrightarrow> 0 \<le> time_accumulator s \<Longrightarrow>
         time_accumulator s < dt s \<Longrightarrow> time_scale s = 1 \<Longrightarrow>
         \<exists>out. simulate_frames upd fs s = Some out \<and> dt (state_of out) = dt s \<and>
           0 \<le> time_accumulator (state_of out) \<and>
           time_accumulator (state_of out) + real (steps_taken (state_of out)) * dt s \<le>
             time_accumulator s + sum_list fs + real (steps_taken s) * dt s \<and>
           (returns_keeping_clock upd \<longrightarrow>
              (\<exists>s'. out = Returned s' \<and> time_accumulator s' < dt s \<and> time_scale s' = 1))"
proof (induction fs arbitrary: s)
  case Nil
  then show ?case by simp
next
  case (Cons f fs)
  have f0: "0 \<le> f" using Cons.prems(1) by simp
  from simulate_nonneg[OF K Cons.prems(2,3,4,5) f0]
  obtain out where o: "simulate upd f s = Some out" "dt (state_of out) = dt s"
    "time_scale (state_of out) = 1" "0 \<le> time_accumulator (state_of out)"
    "time_accumulator (state_of out) + real (steps_taken (state_of out)) * dt s =
             time_accumulator s + min f 0.1 + real (steps_taken s) * dt s"
    "returns_keeping_clock upd \<longrightarrow> (\<exists>s'. out = Returned s')"
    "\<forall>s'. out = Returned s' \<longrightarrow> time_accumulator s' < dt s" by blast
  have rest: "0 \<le> sum_list fs" using Cons.prems(1) by (simp add: sum_list_nonneg)
  show ?case
  proof (cases out)
    case (Thrown e s')
    then have "simulate_frames upd (f # fs) s = Some (Thrown e s')" using o(1) by simp
    moreover have "\<not> returns_keeping_clock upd" using o(6) Thrown by simp
    ultimately show ?thesis using o(2,4,5) Thrown rest
      by (intro exI[of _ "Thrown e s'"]) (simp add: min_def split: if_splits)
  next
    case (Returned s')
    then have sf: "simulate_frames upd (f # fs) s = simulate_frames upd fs s'" using o(1) by simp
    have p: "\<forall>f\<in>set fs. 0 \<le> f" "0 < dt s'" "0 \<le> time_accumulator s'"
      "time_accumulator s' < dt s'" "time_scale s' = 1"
      using Cons.prems o(2,3,4,7) Returned by simp_all
    from Cons.IH[OF p] obtain out' where o':
      "simulate_frames upd fs s' = Some out'" "dt (state_of out') = dt s'"
      "0 \<le> time_accumulator (state_of out')"
      "time_accumulator (state_of out') + real (steps_taken (state_of out')) * dt s' \<le>
             time_accumulator s' + sum_list fs + real (steps_taken s') * dt s'"
      "returns_keeping_clock upd \<longrightarrow>
              (\<exists>s''. out' = Returned s'' \<and> time_accumulator s'' < dt s' \<and> time_scale s'' = 1)"
      by blast
    have ds: "dt s' = dt s" using o(2) Returned by simp
    have "time_accumulator s' + real (steps_taken s') * dt s =
             time_accumulator s + min f 0.1 + real (steps_taken s) * dt s"
      using o(5) Returned by simp
    then have "time_accumulator (state_of out') + real (steps_taken (state_of out')) * dt s \<le>
             time_accumulator s + sum_list (f # fs) + real (steps_taken s) * dt s"
      using o'(4) ds by (simp add: min_def split: if_splits)
    then show ?thesis using sf o'(1,2,3,5) ds
      by (intro exI[of _ out']) simp
  qed
qed

subsection \<open>The timeline leaves the clock and the bodies alone\<close>

lemmas timeline_defs =
  scene_one_def light_on_def scene_two_def walk_in_def turn_and_pause_def umbrellas_def
  jumping_def interactivity_def open_umbrella_def hand_over_def turn_away_def
  carry_umbrella_def walk_out_def rest_of_scene_def totoro_walk_def totoro_jump_def

lemma clock_of_timeline: "clock_of (timeline s) = clock_of s"
proof -
  have a: "clock_of (scene_one s) = clock_of s" "clock_of (light_on s) = clock_of s"
    "clock_of (scene_two s) = clock_of s" "clock_of (walk_in s) = clock_of s"
    "clock_of (turn_and_pause s) = clock_of s" "clock_of (umbrellas s) = clock_of s"
    "clock_of (jumping s) = clock_of s" "clock_of (open_umbrella s) = clock_of s"
    "clock_of (hand_over s) = clock_of s" "clock_of (turn_away s) = clock_of s"
    "clock_of (carry_umbrella s) = clock_of s" "clock_of (walk_out s) = clock_of s"
    for s :: "'a totoro_scene_scheme"
    by (simp_all add: timeline_defs clock_of_def Let_def)
  have b: "clock_of (interactivity s) = clock_of s" "clock_of (rest_of_scene s) = clock_of s"
    for s :: "'a totoro_scene_scheme"
    by (simp_all add: interactivity_def rest_of_scene_def a)
  show ?thesis by (simp add: timeline_def a b)
qed

lemma bodies_timeline: "bodies (timeline s) = bodies s"
proof -
  have a: "bodies (scene_one s) = bodies s" "bodies (light_on s) = bodies s"
    "bodies (scene_two s) = bodies s" "bodies (walk_in s) = bodies s"
    "bodies (turn_and_pause s) = bodies s" "bodies (umbrellas s) = bodies s"
    "bodies (jumping s) = bodies s" "bodies (open_umbrella s) = bodies s"
    "bodies (hand_over s) = bodies s" "bodies (turn_away s) = bodies s"
    "bodies (carry_umbrella s) = bodies s" "bodies (walk_out s) = bodies s"
    for s :: "'a totoro_scene_scheme"
    by (simp_all add: timeline_defs Let_def)
  have b: "bodies (interactivity s) = bodies s" "bodies (rest_of_scene s) = bodies s"
    for s :: "'a totoro_scene_scheme"
    by (simp_all add: interactivity_def rest_of_scene_def a)
  show ?thesis by (simp add: timeline_def a b)
qed

subsection \<open>The pool\<close>

lemma down_velocity: "times_vec3 (normalized (0, - 1, 0)) c = (0, - c, 0)"
  by (simp add: times_vec3_def normalized_def norm_vec3_def vec_x_def vec_y_def vec_z_def)

lemma norm_vec3_vertical: "norm_vec3 (0, y, 0) = \<bar>y\<bar>"
  by (simp add: norm_vec3_def vec_x_def vec_y_def vec_z_def)

lemma spawn_frame:
  "clock_of (spawn s) = clock_of s" "rain_count (spawn s) = rain_count s"
  "random (spawn s) = random s" "random_calls (spawn s) = random_calls s + 4"
  "length (bodies (spawn s)) = Suc (length (bodies s))"
  by (simp_all add: spawn_def randomized_def Math_random_def Let_def split_def clock_of_def)

lemma spawn_body:
  "\<exists>b. bodies (spawn s) = bodies s @ [b] \<and> linear_velocity b = (0, - 1.3, 0) \<and>
       center b = (40 * (random s (random_calls s) - 0.5),
                   10 + 40 * (random s (random_calls s + 1) - 0.5),
                   40 * (random s (random_calls s + 2) - 0.5))"
  by (simp add: spawn_def randomized_def Math_random_def Let_def split_def emplace_def
      down_velocity vec_x_def vec_y_def vec_z_def)

lemma replenish_bodies:
  "\<exists>new. bodies (replenish s) = bodies s @ new \<and>
     length new = rain_count s - length (bodies s) \<and> (\<forall>b\<in>set new. fresh_drop 1.3 (random s) b)"
proof (induction s rule: replenish.induct)
  case (1 s)
  show ?case
  proof (cases "length (bodies s) < rain_count s")
    case False
    then show ?thesis by (simp add: replenish.simps)
  next
    case True
    from 1[OF True] obtain new where n: "bodies (replenish (spawn s)) = bodies (spawn s) @ new"
      "length new = rain_count (spawn s) - length (bodies (spawn s))"
      "\<forall>b\<in>set new. fresh_drop 1.3 (random (spawn s)) b" by blast
    obtain b where b: "bodies (spawn s) = bodies s @ [b]" "fresh_drop 1.3 (random s) b"
      using spawn_body[of s] unfolding fresh_drop_def by blast
    have r: "replenish s = replenish (spawn s)" using True by (subst replenish.simps) simp
    have "bodies (replenish s) = bodies s @ (b # new)" using r n(1) b(1) by simp
    moreover have "length (b # new) = rain_count s - length (bodies s)"
      using n(2) True by (simp add: spawn_frame)
    moreover have "\<forall>x\<in>set (b # new). fresh_drop 1.3 (random s) x"
      using n(3) b(2) by (simp add: spawn_frame)
    ultimately show ?thesis by blast
  qed
qed

lemma replenish_frame:
  "clock_of (replenish s) = clock_of s \<and> rain_count (replenish s) = rain_count s \<and>
   random (replenish s) = random s"
proof (induction s rule: replenish.induct)
  case (1 s)
  show ?case
  proof (cases "length (bodies s) < rain_count s")
    case False
    then show ?thesis by (simp add: replenish.simps)
  next
    case True
    have r: "replenish s = replenish (spawn s)" using True by (subst replenish.simps) simp
    show ?thesis using 1[OF True] by (simp add: r spawn_frame)
  qed
qed

lemma advance_time_frame:
  "clock_of (advance_time d s) = clock_of s" "bodies (advance_time d s) = bodies s"
  "rain_count (advance_time d s) = rain_count s" "random (advance_time d s) = random s"
  by (simp_all add: advance_time_def Let_def clock_of_def)

lemma reset_rain_count_frame:
  "clock_of (reset_rain_count s) = clock_of s" "bodies (reset_rain_count s) = bodies s"
  by (simp_all add: reset_rain_count_def clock_of_def)

lemma clock_of_pool_step: "clock_of (pool_step d s) = clock_of s"
proof -
  have "clock_of (pool_step d s) = clock_of (reset_rain_count (replenish (advance_time d s)))"
    by (simp add: pool_step_def Let_def clock_of_def)
  then show ?thesis by (simp add: reset_rain_count_frame replenish_frame advance_time_frame)
qed

lemma bodies_pool_step:
  "bodies (pool_step d s) = map floor_response (filter keep_alive (bodies_at_filter d s))"
  by (simp add: pool_step_def Let_def bodies_at_filter_def reset_rain_count_frame)

lemma bodies_update_state:
  "bodies (state_of (TotoroScene_update_state d s)) =
     map floor_response (filter keep_alive (bodies_at_filter d s))"
  by (simp add: TotoroScene_update_state_def bodies_timeline bodies_pool_step)

lemma TotoroScene_returns_keeping_clock: "returns_keeping_clock TotoroScene_update_state"
  by (simp add: returns_keeping_clock_def TotoroScene_update_state_def clock_of_timeline
      clock_of_pool_step)

lemma bodies_at_filter_split:
  "\<exists>new. bodies_at_filter d s = map (gravity d) (bodies s) @ map (gravity d) new \<and>
     length new = rain_count s - length (bodies s) \<and> (\<forall>b\<in>set new. fresh_drop 1.3 (random s) b)"
proof -
  from replenish_bodies[of "advance_time d s"] obtain new where
    "bodies (replenish (advance_time d s)) = bodies (advance_time d s) @ new"
    "length new = rain_count (advance_time d s) - length (bodies (advance_time d s))"
    "\<forall>b\<in>set new. fresh_drop 1.3 (random (advance_time d s)) b" by blast
  then show ?thesis by (intro exI[of _ new]) (simp add: bodies_at_filter_def advance_time_frame)
qed

lemma simulate_frames_snoc:
  "simulate_frames upd fs s = Some (Returned s1) \<Longrightarrow>
     simulate_frames upd (fs @ [f]) s = simulate_frames upd [f] s1"
proof (induction fs arbitrary: s)
  case Nil
  then show ?case by simp
next
  case (Cons g fs)
  then show ?case by (auto split: option.splits outcome.splits)
qed

lemma unit_random_half: "unit_random (TotoroScene_new half_random)"
  by (simp add: unit_random_def TotoroScene_new_def half_random_def)

subsection \<open>Vectors\<close>

lemma norm_vec3_nonneg: "0 \<le> norm_vec3 v"
  by (simp add: norm_vec3_def)

lemma norm_vec3_times: "norm_vec3 (times_vec3 v c) = \<bar>c\<bar> * norm_vec3 v"
proof -
  have "vec_x v * c * (vec_x v * c) + vec_y v * c * (vec_y v * c) + vec_z v * c * (vec_z v * c)
        = c\<^sup>2 * (vec_x v * vec_x v + vec_y v * vec_y v + vec_z v * vec_z v)"
    by (simp add: power2_eq_square algebra_simps)
  then show ?thesis
    by (simp add: norm_vec3_def times_vec3_def vec_x_def vec_y_def vec_z_def real_sqrt_mult)
qed

lemma norm_vec3_pos: "vec_y v \<noteq> 0 \<Longrightarrow> 0 < norm_vec3 v"
proof -
  assume "vec_y v \<noteq> 0"
  then have "0 < vec_y v * vec_y v" by (auto simp: zero_less_mult_iff)
  moreover have "0 \<le> vec_x v * vec_x v" "0 \<le> vec_z v * vec_z v" by simp_all
  ultimately have "0 < vec_x v * vec_x v + vec_y v * vec_y v + vec_z v * vec_z v" by linarith
  then show ?thesis by (simp add: norm_vec3_def)
qed

lemma scaled_unit_norm:
  assumes "vec_y v < 0" and "0 < c"
  shows "norm_vec3 (times_vec3 (normalized v) c) = c \<and> vec_y (times_vec3 (normalized v) c) < 0"
proof -
  have n: "0 < norm_vec3 v" using assms(1) by (intro norm_vec3_pos) simp
  have "norm_vec3 (times_vec3 (normalized v) c) = c"
    using n assms(2) by (simp add: normalized_def norm_vec3_times)
  moreover have "vec_y (times_vec3 (normalized v) c) = vec_y v * (1 / norm_vec3 v) * c"
    by (simp add: normalized_def times_vec3_def vec_x_def vec_y_def vec_z_def)
  moreover have "vec_y v * (1 / norm_vec3 v) * c < 0"
    using n assms by (simp add: mult_less_0_iff zero_less_mult_iff divide_less_0_iff)
  ultimately show ?thesis by simp
qed

subsection \<open>One body through the step\<close>

lemma gravity_simps:
  "linear_velocity (gravity d b) =
     (vec_x (linear_velocity b), vec_y (linear_velocity b) - d, vec_z (linear_velocity b))"
  "center (gravity d b) = center b"
  by (simp_all add: gravity_def)

lemma keep_alive_falling: "vec_y (linear_velocity b) \<le> 0 \<Longrightarrow> keep_alive b"
  by (simp add: keep_alive_def)

lemma floor_response_bounce:
  assumes "vec_y (center b) < 0.5" and "vec_y (linear_velocity b) < 0"
  shows "vec_y (linear_velocity (floor_response b)) = - 0.2 * vec_y (linear_velocity b)"
    and "vec_y (center (floor_response b)) = 0.5"
    and "vec_x (center (floor_response b)) = vec_x (center b)"
    and "vec_z (center (floor_response b)) = vec_z (center b)"
  using assms by (simp_all add: floor_response_def Let_def vec_x_def vec_y_def vec_z_def)

lemma floor_response_idle:
  "\<not> (vec_y (center b) < 0.5 \<and> vec_y (linear_velocity b) < 0) \<Longrightarrow> floor_response b = b"
  unfolding floor_response_def by (simp only: if_False)

lemma fresh_drop_keep:
  "fresh_drop c rnd b \<Longrightarrow> 0 \<le> c \<Longrightarrow> 0 \<le> d \<Longrightarrow> keep_alive (gravity d b)"
  by (simp add: fresh_drop_def keep_alive_def gravity_simps vec_y_def)

lemma fresh_drop_speed:
  "fresh_drop c rnd b \<Longrightarrow> 0 < c \<Longrightarrow>
     norm_vec3 (linear_velocity b) = c \<and> vec_y (linear_velocity b) < 0"
  by (simp add: fresh_drop_def norm_vec3_vertical vec_y_def)

lemma fresh_drop_box:
  assumes "fresh_drop c rnd b" and "\<forall>n. 0 \<le> rnd n \<and> rnd n < 1"
  shows "spawn_box (center b)"
proof -
  from assms(1) obtain k where
    c: "center b = (40 * (rnd k - 0.5), 10 + 40 * (rnd (k + 1) - 0.5), 40 * (rnd (k + 2) - 0.5))"
    unfolding fresh_drop_def by blast
  have "0 \<le> rnd k" "rnd k < 1" "0 \<le> rnd (k + 1)" "rnd (k + 1) < 1" "0 \<le> rnd (k + 2)"
    "rnd (k + 2) < 1" using assms(2) by simp_all
  then show ?thesis by (simp add: spawn_box_def c vec_x_def vec_y_def vec_z_def)
qed

subsection \<open>The list of bodies through the step\<close>

lemma bodies_at_filter_mem:
  "b \<in> set (bodies s) \<Longrightarrow> gravity d b \<in> set (bodies_at_filter d s)"
  using bodies_at_filter_split[of d s] by auto

lemma kept_body_survives:
  "b \<in> set (bodies_at_filter d s) \<Longrightarrow> keep_alive b \<Longrightarrow>
     floor_response b \<in> set (bodies (state_of (TotoroScene_update_state d s)))"
  by (simp add: bodies_update_state)

lemma all_kept:
  assumes "\<forall>b\<in>set (bodies s). keep_alive (gravity d b)" and "0 \<le> d"
  shows "\<forall>b\<in>set (bodies_at_filter d s). keep_alive b"
proof -
  from bodies_at_filter_split[of d s] obtain new where
    n: "bodies_at_filter d s = map (gravity d) (bodies s) @ map (gravity d) new"
    "\<forall>b\<in>set new. fresh_drop 1.3 (random s) b" by blast
  show ?thesis using assms n(2) by (auto simp: n(1) fresh_drop_keep)
qed

lemma no_retirement_length:
  assumes "\<forall>b\<in>set (bodies_at_filter d s). keep_alive b"
  shows "length (bodies (state_of (TotoroScene_update_state d s))) =
           max (length (bodies s)) (rain_count s)"
proof -
  from bodies_at_filter_split[of d s] obtain new where
    n: "bodies_at_filter d s = map (gravity d) (bodies s) @ map (gravity d) new"
    "length new = rain_count s - length (bodies s)" by blast
  have "filter keep_alive (bodies_at_filter d s) = bodies_at_filter d s"
    using assms by (simp add: filter_id_conv)
  then have "length (bodies (state_of (TotoroScene_update_state d s))) =
               length (bodies_at_filter d s)"
    by (simp add: bodies_update_state)
  then show ?thesis using n by (simp add: max_def)
qed

subsection \<open>The target through the step\<close>

lemma rain_count_timeline: "\<not> totoroJump s \<Longrightarrow> rain_count (timeline s) = rain_count s"
proof -
  have a: "rain_count (scene_one s) = rain_count s \<and> totoroJump (scene_one s) = totoroJump s"
    "rain_count (light_on s) = rain_count s \<and> totoroJump (light_on s) = totoroJump s"
    "rain_count (scene_two s) = rain_count s \<and> totoroJump (scene_two s) = totoroJump s"
    "rain_count (walk_in s) = rain_count s \<and> totoroJump (walk_in s) = totoroJump s"
    "rain_count (turn_and_pause s) = rain_count s \<and> totoroJump (turn_and_pause s) = totoroJump s"
    "rain_count (umbrellas s) = rain_count s \<and> totoroJump (umbrellas s) = totoroJump s"
    "rain_count (open_umbrella s) = rain_count s" "rain_count (hand_over s) = rain_count s"
    "rain_count (turn_away s) = rain_count s" "rain_count (carry_umbrella s) = rain_count s"
    "rain_count (walk_out s) = rain_count s"
    for s :: "'a totoro_scene_scheme"
    by (simp_all add: timeline_defs Let_def)
  have j: "\<not> totoroJump s \<Longrightarrow> rain_count (jumping s) = rain_count s"
    for s :: "'a totoro_scene_scheme"
    by (simp add: jumping_def)
  have b: "\<not> totoroJump s \<Longrightarrow> rain_count (interactivity s) = rain_count s"
    "rain_count (rest_of_scene s) = rain_count s"
    for s :: "'a totoro_scene_scheme"
    by (simp_all add: interactivity_def rest_of_scene_def a j)
  assume "\<not> totoroJump s"
  then show ?thesis by (simp add: timeline_def a b)
qed

lemma pool_step_targets:
  "totoroJump (pool_step d s) = totoroJump s"
  "rain_count (pool_step d s) =
     (if rain_count s = jump_rain_count s then normal_rain_count s else rain_count s)"
proof -
  have sp: "totoroJump (spawn s) = totoroJump s \<and> jump_rain_count (spawn s) = jump_rain_count s \<and>
            normal_rain_count (spawn s) = normal_rain_count s" for s :: "'a totoro_scene_scheme"
    by (simp add: spawn_def randomized_def Math_random_def Let_def split_def)
  have rp: "totoroJump (replenish s) = totoroJump s \<and>
            jump_rain_count (replenish s) = jump_rain_count s \<and>
            normal_rain_count (replenish s) = normal_rain_count s"
    for s :: "'a totoro_scene_scheme"
  proof (induction s rule: replenish.induct)
    case (1 s)
    show ?case
    proof (cases "length (bodies s) < rain_count s")
      case False
      then show ?thesis by (simp add: replenish.simps)
    next
      case True
      have r: "replenish s = replenish (spawn s)" using True by (subst replenish.simps) simp
      show ?thesis using 1[OF True] by (simp add: r sp)
    qed
  qed
  have at: "totoroJump (advance_time d s) = totoroJump s"
    "jump_rain_count (advance_time d s) = jump_rain_count s"
    "normal_rain_count (advance_time d s) = normal_rain_count s"
    by (simp_all add: advance_time_def Let_def)
  show "totoroJump (pool_step d s) = totoroJump s"
    by (simp add: pool_step_def Let_def reset_rain_count_def rp at)
  show "rain_count (pool_step d s) =
     (if rain_count s = jump_rain_count s then normal_rain_count s else rain_count s)"
    by (simp add: pool_step_def Let_def reset_rain_count_def rp at replenish_frame
        advance_time_frame)
qed

subsection \<open>The first version of the pool\<close>

lemma spawn_v1_frame:
  "rain_count (spawn_v1 s) = rain_count s" "random (spawn_v1 s) = random s"
  "length (bodies (spawn_v1 s)) = Suc (length (bodies s))"
  by (simp_all add: spawn_v1_def randomized_def Math_random_def Let_def split_def)

lemma spawn_v1_body: "\<exists>b. bodies (spawn_v1 s) = bodies s @ [b] \<and> fresh_drop 3 (random s) b"
  unfolding fresh_drop_def
  by (simp add: spawn_v1_def randomized_def Math_random_def Let_def split_def emplace_def
      down_velocity vec_x_def vec_y_def vec_z_def) blast

lemma replenish_v1_bodies:
  "\<exists>new. bodies (replenish_v1 s) = bodies s @ new \<and>
     length new = rain_count s - length (bodies s) \<and> (\<forall>b\<in>set new. fresh_drop 3 (random s) b)"
proof (induction s rule: replenish_v1.induct)
  case (1 s)
  show ?case
  proof (cases "length (bodies s) < rain_count s")
    case False
    then show ?thesis by (simp add: replenish_v1.simps)
  next
    case True
    from 1[OF True] obtain new where n: "bodies (replenish_v1 (spawn_v1 s)) = bodies (spawn_v1 s) @ new"
      "length new = rain_count (spawn_v1 s) - length (bodies (spawn_v1 s))"
      "\<forall>b\<in>set new. fresh_drop 3 (random (spawn_v1 s)) b" by blast
    obtain b where b: "bodies (spawn_v1 s) = bodies s @ [b]" "fresh_drop 3 (random s) b"
      using spawn_v1_body[of s] by blast
    have r: "replenish_v1 s = replenish_v1 (spawn_v1 s)"
      using True by (subst replenish_v1.simps) simp
    have "bodies (replenish_v1 s) = bodies s @ (b # new)" using r n(1) b(1) by simp
    moreover have "length (b # new) = rain_count s - length (bodies s)"
      using n(2) True by (simp add: spawn_v1_frame)
    moreover have "\<forall>x\<in>set (b # new). fresh_drop 3 (random s) x"
      using n(3) b(2) by (simp add: spawn_v1_frame)
    ultimately show ?thesis by blast
  qed
qed

lemma bodies_pool_step_v1:
  "bodies (pool_step_v1 d s) =
     filter keep_alive_v1 (map (forces_v1 d) (bodies (replenish_v1 (advance_time d s))))"
  by (simp add: pool_step_v1_def Let_def reset_rain_count_v1_def)

subsection \<open>The pool of Assignment3\<close>

lemma spawn_a3_frame:
  "random (spawn_a3 s) = random s" "length (bodies (spawn_a3 s)) = Suc (length (bodies s))"
  by (simp_all add: spawn_a3_def randomized_def Math_random_def Let_def split_def)

lemma jitter_bounds:
  assumes "\<forall>n. 0 \<le> rnd n \<and> rnd n < 1"
  shows "- 1 \<le> vec_x (jitter rnd k) \<and> vec_x (jitter rnd k) < 1 \<and>
         - 1 \<le> vec_y (jitter rnd k) \<and> vec_y (jitter rnd k) < 1 \<and>
         - 1 \<le> vec_z (jitter rnd k) \<and> vec_z (jitter rnd k) < 1"
proof -
  have "0 \<le> rnd k" "rnd k < 1" "0 \<le> rnd (k + 1)" "rnd (k + 1) < 1" "0 \<le> rnd (k + 2)"
    "rnd (k + 2) < 1" using assms by simp_all
  then show ?thesis by (simp add: jitter_def vec_x_def vec_y_def vec_z_def)
qed

lemma jittered_by_speed:
  assumes "jittered_by c rnd b" and "\<forall>n. 0 \<le> rnd n \<and> rnd n < 1" and "0 < c"
  shows "norm_vec3 (linear_velocity b) = c \<and> vec_y (linear_velocity b) < 0"
proof -
  from assms(1) obtain k where
    k: "linear_velocity b = times_vec3 (normalized (plus_vec3 (0, - 1, 0) (jitter rnd k))) c"
    unfolding jittered_by_def by blast
  have "vec_y (jitter rnd k) < 1" using jitter_bounds[OF assms(2), of k] by simp
  then have "vec_y (plus_vec3 (0, - 1, 0) (jitter rnd k)) < 0"
    by (simp add: plus_vec3_def vec_y_def)
  from scaled_unit_norm[OF this assms(3)] show ?thesis by (simp add: k)
qed

lemma spawn_a3_body:
  "\<exists>b. bodies (spawn_a3 s) = bodies s @ [b] \<and> jittered_by 3 (random s) b"
proof -
  define k where "k = Suc (Suc (Suc (random_calls s)))"
  have "\<exists>b. bodies (spawn_a3 s) = bodies s @ [b] \<and>
          linear_velocity b =
            times_vec3 (normalized (plus_vec3 (0, - 1, 0) (jitter (random s) k))) 3"
    by (simp add: spawn_a3_def randomized_def Math_random_def Let_def split_def emplace_def
        jitter_def k_def plus_vec3_def vec_x_def vec_y_def vec_z_def)
  then show ?thesis unfolding jittered_by_def by blast
qed

lemma replenish_a3_bodies:
  "\<exists>new. bodies (replenish_a3 s) = bodies s @ new \<and> length new = 30 - length (bodies s) \<and>
     (\<forall>b\<in>set new. jittered_by 3 (random s) b)"
proof (induction s rule: replenish_a3.induct)
  case (1 s)
  show ?case
  proof (cases "length (bodies s) < 30")
    case False
    then show ?thesis by (simp add: replenish_a3.simps)
  next
    case True
    from 1[OF True] obtain new where
      n: "bodies (replenish_a3 (spawn_a3 s)) = bodies (spawn_a3 s) @ new"
      "length new = 30 - length (bodies (spawn_a3 s))"
      "\<forall>b\<in>set new. jittered_by 3 (random (spawn_a3 s)) b" by blast
    obtain b where b: "bodies (spawn_a3 s) = bodies s @ [b]" "jittered_by 3 (random s) b"
      using spawn_a3_body[of s] by blast
    have r: "replenish_a3 s = replenish_a3 (spawn_a3 s)"
      using True by (subst replenish_a3.simps) simp
    have "bodies (replenish_a3 s) = bodies s @ (b # new)" using r n(1) b(1) by simp
    moreover have "length (b # new) = 30 - length (bodies s)"
      using n(2) True by (simp add: spawn_a3_frame)
    moreover have "\<forall>x\<in>set (b # new). jittered_by 3 (random s) x"
      using n(3) b(2) by (simp add: spawn_a3_frame)
    ultimately show ?thesis by blast
  qed
qed

subsection \<open>Concrete bodies\<close>

lemma drop_at_simps:
  "center (drop_at h v) = (0, h, 0)" "linear_velocity (drop_at h v) = (0, v, 0)"
  by (simp_all add: drop_at_def emplace_def)

lemma scene_with_simps:
  "bodies (scene_with bs) = bs" "rain_count (scene_with bs) = 500"
  "jump_rain_count (scene_with bs) = 1000" "normal_rain_count (scene_with bs) = 500"
  "totoroJump (scene_with bs) = False" "random (scene_with bs) = half_random"
  by (simp_all add: scene_with_def TotoroScene_new_def)

lemma v1_first_step:
  "bodies (pool_step_v1 (1 / 20) (TotoroScene_new half_random)) =
     map (forces_v1 (1 / 20)) (bodies (replenish_v1 (advance_time (1 / 20) (TotoroScene_new half_random)))) \<and>
   length (bodies (pool_step_v1 (1 / 20) (TotoroScene_new half_random))) = 500"
proof -
  let ?S = "TotoroScene_new half_random"
  from replenish_v1_bodies[of "advance_time (1 / 20) ?S"] obtain new where
    n: "bodies (replenish_v1 (advance_time (1 / 20) ?S)) = new" "length new = 500"
    "\<forall>b\<in>set new. fresh_drop 3 half_random b"
    by (auto simp: advance_time_frame TotoroScene_new_def)
  have "keep_alive_v1 (forces_v1 (1 / 20) b)" if "b \<in> set new" for b
  proof -
    from n(3) that have "linear_velocity b = (0, - 3, 0)" "center b = (0, 10, 0)"
      by (auto simp: fresh_drop_def half_random_def)
    then show ?thesis
      by (simp add: keep_alive_v1_def forces_v1_def Let_def gravity_simps norm_vec3_vertical
          vec_x_def vec_y_def vec_z_def)
  qed
  then have "filter keep_alive_v1 (map (forces_v1 (1 / 20)) new) = map (forces_v1 (1 / 20)) new"
    by (simp add: filter_id_conv)
  then show ?thesis using n(1,2) by (simp add: bodies_pool_step_v1)
qed

subsection \<open>Rounding to a double\<close>

lemma round_half_even_error: "\<bar>of_int (round_half_even y) - y\<bar> \<le> 1 / 2"
proof -
  have "of_int \<lfloor>y\<rfloor> \<le> y" "y < of_int \<lfloor>y\<rfloor> + 1" by linarith+
  then show ?thesis by (auto simp: round_half_even_def Let_def)
qed

lemma round_half_even_of_int: "round_half_even (of_int n) = n"
  by (simp add: round_half_even_def)

lemma round_half_even_ge: "of_int a \<le> y \<Longrightarrow> a \<le> round_half_even y"
proof -
  assume "of_int a \<le> y"
  then have "a \<le> \<lfloor>y\<rfloor>" by (simp add: le_floor_iff)
  then show ?thesis by (auto simp: round_half_even_def Let_def)
qed

lemma round_half_even_le: "y \<le> of_int b \<Longrightarrow> round_half_even y \<le> b"
proof -
  assume yb: "y \<le> of_int b"
  then have fb: "\<lfloor>y\<rfloor> \<le> b" by (simp add: floor_le_iff)
  show ?thesis
  proof (cases "\<lfloor>y\<rfloor> = b")
    case True
    have "of_int \<lfloor>y\<rfloor> \<le> y" by linarith
    then have "y = of_int b" using True yb by simp
    then show ?thesis by (simp add: round_half_even_of_int)
  next
    case False
    then have "\<lfloor>y\<rfloor> + 1 \<le> b" using fb by simp
    then show ?thesis using fb by (auto simp: round_half_even_def Let_def)
  qed
qed

lemma binary64_zero: "binary64 0 = 0"
  by (simp add: binary64_def)

lemma binary64_minus: "binary64 (- x) = - binary64 x"
  by (simp add: binary64_def Let_def)

text \<open>Evaluation in a known binade.\<close>

lemma binary64_binade:
  assumes "0 < (x::real)" and "2 ^ 52 * 2 powr of_int e \<le> x" and "x < 2 ^ 53 * 2 powr of_int e"
  shows "binary64 x = of_int (round_half_even (x / 2 powr of_int e)) * 2 powr of_int e"
proof -
  have p52: "(2::real) powr of_int (e + 52) = 2 ^ 52 * 2 powr of_int e"
    by (simp add: powr_add)
  have p53: "(2::real) powr (of_int (e + 52) + 1) = 2 ^ 53 * 2 powr of_int e"
    by (simp add: powr_add)
  have "2 powr of_int (e + 52) \<le> x \<and> x < 2 powr (of_int (e + 52) + 1)"
    using assms(2,3) unfolding p52 p53 by simp
  then have "\<lfloor>log 2 x\<rfloor> = e + 52"
    using assms(1) floor_log_eq_powr_iff[of x 2 "e + 52"] by simp
  then show ?thesis using assms(1) by (simp add: binary64_def Let_def)
qed

lemma binade_exists:
  assumes "0 < (x::real)"
  shows "\<exists>e. 2 ^ 52 * 2 powr of_int e \<le> x \<and> x < 2 ^ 53 * 2 powr of_int e"
proof -
  define k where "k = \<lfloor>log 2 x\<rfloor>"
  have "2 powr of_int k \<le> x \<and> x < 2 powr (of_int k + 1)"
    using floor_log_eq_powr_iff[of x 2 k] assms by (simp add: k_def)
  moreover have "(2::real) powr of_int k = 2 ^ 52 * 2 powr of_int (k - 52)"
    by (simp add: powr_diff)
  moreover have "(2::real) powr (of_int k + 1) = 2 ^ 53 * 2 powr of_int (k - 52)"
    by (simp add: powr_diff powr_add)
  ultimately show ?thesis by (intro exI[of _ "k - 52"]) simp
qed

lemma binary64_error_pos:
  assumes "0 < x"
  shows "\<bar>binary64 x - x\<bar> \<le> x / 2 ^ 53"
proof -
  from binade_exists[OF assms] obtain e where
    e: "2 ^ 52 * 2 powr of_int e \<le> x" "x < 2 ^ 53 * 2 powr of_int e" by blast
  define s where "s = (2::real) powr of_int e"
  have s: "0 < s" by (simp add: s_def)
  define m where "m = round_half_even (x / s)"
  have b: "binary64 x = of_int m * s" using binary64_binade[OF assms e] by (simp add: m_def s_def)
  have "\<bar>of_int m - x / s\<bar> \<le> 1 / 2" unfolding m_def by (rule round_half_even_error)
  then have "\<bar>of_int m - x / s\<bar> * s \<le> 1 / 2 * s" using s by (intro mult_right_mono) simp_all
  moreover have "\<bar>of_int m - x / s\<bar> * s = \<bar>(of_int m - x / s) * s\<bar>"
    using s by (simp add: abs_mult)
  moreover have "(of_int m - x / s) * s = of_int m * s - x"
    using s by (simp add: algebra_simps)
  ultimately have "\<bar>binary64 x - x\<bar> \<le> s / 2" by (simp add: b)
  moreover have "s / 2 \<le> x / 2 ^ 53" using e(1) by (simp add: s_def)
  ultimately show ?thesis by linarith
qed

lemma binary64_nonneg: "0 \<le> x \<Longrightarrow> 0 \<le> binary64 x"
proof (cases "x = 0")
  case True
  then show ?thesis by (simp add: binary64_zero)
next
  case False
  assume "0 \<le> x"
  with False have x: "0 < x" by simp
  have "\<bar>binary64 x - x\<bar> \<le> x / 2 ^ 53" by (rule binary64_error_pos[OF x])
  moreover have "x / 2 ^ 53 \<le> x" using x by (simp add: field_simps)
  ultimately show ?thesis by linarith
qed

lemma binary64_idem: "binary64 (binary64 x) = binary64 x"
proof -
  have pos: "binary64 (binary64 x) = binary64 x" if x: "0 < x" for x
  proof -
    from binade_exists[OF x] obtain e where
      e: "2 ^ 52 * 2 powr of_int e \<le> x" "x < 2 ^ 53 * 2 powr of_int e" by blast
    define s where "s = (2::real) powr of_int e"
    have s: "0 < s" by (simp add: s_def)
    define m where "m = round_half_even (x / s)"
    have b: "binary64 x = of_int m * s" using binary64_binade[OF x e] by (simp add: m_def s_def)
    have "of_int (2 ^ 52) \<le> x / s" using e(1) s by (simp add: s_def field_simps)
    then have lo: "2 ^ 52 \<le> m" unfolding m_def by (rule round_half_even_ge)
    have "x / s \<le> of_int (2 ^ 53)" using e(2) s by (simp add: s_def field_simps)
    then have hi: "m \<le> 2 ^ 53" unfolding m_def by (rule round_half_even_le)
    have mpos: "0 < of_int m * s" using lo s by simp
    show ?thesis
    proof (cases "m = 2 ^ 53")
      case False
      then have "m < 2 ^ 53" using hi by simp
      then have "of_int m < (2::real) ^ 53" by (metis of_int_less_iff of_int_numeral of_int_power)
      then have u: "of_int m * s < 2 ^ 53 * s" using s by simp
      have "(2::real) ^ 52 \<le> of_int m" using lo by (metis of_int_le_iff of_int_numeral of_int_power)
      then have l: "2 ^ 52 * s \<le> of_int m * s" using s by simp
      have "binary64 (of_int m * s) = of_int (round_half_even (of_int m * s / s)) * s"
        using binary64_binade[OF mpos, of e] l u by (simp add: s_def)
      then show ?thesis using s by (simp add: b round_half_even_of_int)
    next
      case True
      define s' where "s' = (2::real) powr of_int (e + 1)"
      have s2: "s' = 2 * s" by (simp add: s'_def s_def powr_add)
      have v: "of_int m * s = 2 ^ 52 * s'" using True by (simp add: s2)
      have "2 ^ 52 * s' \<le> of_int m * s" "of_int m * s < 2 ^ 53 * s'"
        using s by (simp_all add: v s2)
      then have "binary64 (of_int m * s) =
              of_int (round_half_even (of_int m * s / s')) * s'"
        unfolding s'_def by (intro binary64_binade[OF mpos])
      moreover have "of_int m * s / s' = of_int (2 ^ 52)" using s by (simp add: v s2)
      ultimately have "binary64 (of_int m * s) = of_int (2 ^ 52) * s'"
        by (simp only: round_half_even_of_int)
      then show ?thesis by (simp add: b v)
    qed
  qed
  consider "x = 0" | "0 < x" | "x < 0" by linarith
  then show ?thesis
  proof cases
    case 1
    then show ?thesis by (simp add: binary64_zero)
  next
    case 2
    then show ?thesis by (rule pos)
  next
    case 3
    then have "0 < - x" by simp
    from pos[OF this] show ?thesis by (simp add: binary64_minus)
  qed
qed

lemma binary64_eval:
  assumes "0 < (x::real)" and "2 ^ 52 * 2 ^ q \<le> x * 2 ^ p" and "x * 2 ^ p < 2 ^ 53 * 2 ^ q"
    and "round_half_even (x * 2 ^ p / 2 ^ q) = m" and "of_int m * 2 ^ q / 2 ^ p = r"
  shows "binary64 x = r"
proof -
  have s: "(2::real) powr of_int (int q - int p) = 2 ^ q / 2 ^ p"
    by (simp add: powr_diff powr_realpow)
  have "2 ^ 52 * 2 powr of_int (int q - int p) \<le> x"
    using assms(2) unfolding s by (simp add: field_simps)
  moreover have "x < 2 ^ 53 * 2 powr of_int (int q - int p)"
    using assms(3) unfolding s by (simp add: field_simps)
  ultimately have "binary64 x =
      of_int (round_half_even (x / 2 powr of_int (int q - int p))) * 2 powr of_int (int q - int p)"
    by (rule binary64_binade[OF assms(1)])
  moreover have "x / (2 ^ q / 2 ^ p) = x * 2 ^ p / 2 ^ q" by simp
  ultimately show ?thesis using assms(4,5) unfolding s by simp
qed

lemma sixtieth: "binary64 (1 / 60) = 4803839602528529 / 2 ^ 58"
  by (rule binary64_eval[where p = 58 and q = 0 and m = 4803839602528529])
     (simp_all add: round_half_even_def Let_def)

lemma twentieth: "binary64 (1 / 20) = 7205759403792794 / 2 ^ 57"
  by (rule binary64_eval[where p = 57 and q = 0 and m = 7205759403792794])
     (simp_all add: round_half_even_def Let_def)

lemma tenth: "binary64 (1 / 10) = 7205759403792794 / 2 ^ 56"
  by (rule binary64_eval[where p = 56 and q = 0 and m = 7205759403792794])
     (simp_all add: round_half_even_def Let_def)

lemma three_sixtieths:
  "binary64 (4803839602528529 / 2 ^ 57 + 4803839602528529 / 2 ^ 58) = 7205759403792794 / 2 ^ 57"
  by (rule binary64_eval[where p = 57 and q = 0 and m = 7205759403792794])
     (simp_all add: round_half_even_def Let_def)

subsection \<open>The stepper on doubles\<close>

lemma binary64_small:
  assumes "0 \<le> x" and "x \<le> 1 / 4"
  shows "0 \<le> binary64 x \<and> \<bar>binary64 x - x\<bar> \<le> 1 / 2 ^ 55"
proof (cases "x = 0")
  case True
  then show ?thesis by (simp add: binary64_zero)
next
  case False
  then have x: "0 < x" using assms(1) by simp
  have "\<bar>binary64 x - x\<bar> \<le> x / 2 ^ 53" by (rule binary64_error_pos[OF x])
  moreover have "x / 2 ^ 53 \<le> 1 / 2 ^ 55" using assms(2) by simp
  ultimately show ?thesis using binary64_nonneg[OF assms(1)] by simp
qed

lemma clock_of_sub_step_end_f64:
  "clock_of (sub_step_end_f64 f s) =
     (binary64 (time_accumulator s - binary64 (sgn f * dt s)), time_scale s,
      binary64 (t s + binary64 (sgn f * dt s)), dt s, steps_taken s + 1)"
  by (simp add: clock_of_def sub_step_end_f64_def Let_def)

lemma sub_steps_f64_rest:
  "\<bar>time_accumulator s\<bar> < dt s \<Longrightarrow> sub_steps_f64 upd f s = Some (Returned s)"
  by (subst sub_steps_f64.simps) simp

lemma sub_steps_f64_thrown:
  "dt s \<le> \<bar>time_accumulator s\<bar> \<Longrightarrow> upd (dt s) s = Thrown e s' \<Longrightarrow>
     sub_steps_f64 upd f s = Some (Thrown e s')"
  by (subst sub_steps_f64.simps) simp

lemma sub_steps_f64_returned:
  "dt s \<le> \<bar>time_accumulator s\<bar> \<Longrightarrow> upd (dt s) s = Returned s1 \<Longrightarrow>
     sub_steps_f64 upd f s = sub_steps_f64 upd f (sub_step_end_f64 f s1)"
  by (subst sub_steps_f64.simps) simp

lemma clock_of_blend_all_f64: "clock_of (blend_all_f64 s) = clock_of s"
  by (simp add: blend_all_f64_def clock_of_def Let_def)

lemma simulate_f64_unfold:
  "simulate_f64 upd f s =
     (case sub_steps_f64 upd (binary64 (time_scale s * f))
             (s\<lparr>time_accumulator :=
                  binary64 (time_accumulator s
                            + min (binary64 (time_scale s * f)) (binary64 (1 / 10)))\<rparr>) of
        None \<Rightarrow> None
      | Some (Thrown e s') \<Rightarrow> Some (Thrown e s')
      | Some (Returned s') \<Rightarrow> Some (Returned (blend_all_f64 s')))"
  by (simp add: simulate_f64_def accumulate_f64_def Let_def)

text \<open>
  Forward in time, from an accumulator that is a double between 0 and one quarter and
  within \<open>n\<close> steps (each short of \<open>dt\<close> by the rounding error \<open>1 / 2 ^ 55\<close>) of the
  end of the loop: the loop ends after \<open>k \<le> n\<close> passes, and each pass overdraws the
  accumulator by no more than the rounding error.
\<close>

lemma sub_steps_f64_count:
  assumes K: "keeps_clock upd" and sg: "sgn f = 1"
  shows "binary64 (dt s) = dt s \<Longrightarrow> 1 / 2 ^ 55 \<le> dt s \<Longrightarrow>
         binary64 (time_accumulator s) = time_accumulator s \<Longrightarrow>
         0 \<le> time_accumulator s \<Longrightarrow> time_accumulator s \<le> 1 / 4 \<Longrightarrow>
         time_accumulator s < dt s + real n * (dt s - 1 / 2 ^ 55) \<Longrightarrow>
         \<exists>out k. sub_steps_f64 upd f s = Some out \<and> k \<le> n \<and>
           dt (state_of out) = dt s \<and> time_scale (state_of out) = time_scale s \<and>
           steps_taken (state_of out) = steps_taken s + k \<and>
           0 \<le> time_accumulator (state_of out) \<and>
           binary64 (time_accumulator (state_of out)) = time_accumulator (state_of out) \<and>
           time_accumulator (state_of out) + real k * dt s
             \<le> time_accumulator s + real k / 2 ^ 55 \<and>
           (\<forall>s'. out = Returned s' \<longrightarrow> time_accumulator s' < dt s) \<and>
           (returns_keeping_clock upd \<longrightarrow> (\<exists>s'. out = Returned s'))"
proof (induction n arbitrary: s)
  case 0
  then have "\<bar>time_accumulator s\<bar> < dt s" by simp
  then have "sub_steps_f64 upd f s = Some (Returned s)" by (rule sub_steps_f64_rest)
  then show ?case using 0 by (intro exI[of _ "Returned s"] exI[of _ 0]) simp
next
  case (Suc n)
  show ?case
  proof (cases "time_accumulator s < dt s")
    case True
    then have "\<bar>time_accumulator s\<bar> < dt s" using Suc.prems(4) by simp
    then have "sub_steps_f64 upd f s = Some (Returned s)" by (rule sub_steps_f64_rest)
    then show ?thesis using Suc.prems True
      by (intro exI[of _ "Returned s"] exI[of _ 0]) simp
  next
    case False
    then have big: "dt s \<le> \<bar>time_accumulator s\<bar>" by simp
    show ?thesis
    proof (cases "upd (dt s) s")
      case (Thrown e s')
      have c: "clock_of s' = clock_of s" using K Thrown unfolding keeps_clock_def
        by (metis state_of.simps(2))
      note c' = clock_of_eqD[OF c]
      have "sub_steps_f64 upd f s = Some (Thrown e s')"
        using sub_steps_f64_thrown[of s upd e s' f] big Thrown by simp
      moreover have "\<not> returns_keeping_clock upd"
        using Thrown unfolding returns_keeping_clock_def by (metis outcome.distinct(1))
      ultimately show ?thesis using c' Suc.prems
        by (intro exI[of _ "Thrown e s'"] exI[of _ 0]) simp
    next
      case (Returned s1)
      have c: "clock_of s1 = clock_of s" using K Returned unfolding keeps_clock_def
        by (metis state_of.simps(1))
      note c' = clock_of_eqD[OF c]
      let ?s2 = "sub_step_end_f64 f s1"
      let ?x = "time_accumulator s - dt s"
      have c2: "clock_of ?s2 =
        (binary64 ?x, time_scale s, binary64 (t s + dt s), dt s, steps_taken s + 1)"
        using c' sg Suc.prems(1) by (simp add: clock_of_sub_step_end_f64)
      then have d2: "dt ?s2 = dt s" and a2: "time_accumulator ?s2 = binary64 ?x"
        and ts2: "time_scale ?s2 = time_scale s" and st2: "steps_taken ?s2 = steps_taken s + 1"
        by (simp_all add: clock_of_def)
      have x: "0 \<le> ?x" "?x \<le> 1 / 4" using False Suc.prems(2,5) by simp_all
      from binary64_small[OF x] have r: "0 \<le> binary64 ?x" "\<bar>binary64 ?x - ?x\<bar> \<le> 1 / 2 ^ 55"
        by simp_all
      have up: "binary64 ?x \<le> ?x + 1 / 2 ^ 55" using r(2) by linarith
      have p1: "binary64 (dt ?s2) = dt ?s2" "1 / 2 ^ 55 \<le> dt ?s2"
        using Suc.prems(1,2) d2 by simp_all
      have p2: "binary64 (time_accumulator ?s2) = time_accumulator ?s2"
        by (simp add: a2 binary64_idem)
      have p3: "0 \<le> time_accumulator ?s2" using r(1) by (simp add: a2)
      have p4: "time_accumulator ?s2 \<le> 1 / 4" using up Suc.prems(2,5) by (simp add: a2)
      have "dt s + real (Suc n) * (dt s - 1 / 2 ^ 55) =
              dt s + real n * (dt s - 1 / 2 ^ 55) + (dt s - 1 / 2 ^ 55)"
        by (simp add: distrib_right)
      then have "binary64 ?x < dt s + real n * (dt s - 1 / 2 ^ 55)"
        using Suc.prems(6) up by linarith
      then have p5: "time_accumulator ?s2 < dt ?s2 + real n * (dt ?s2 - 1 / 2 ^ 55)"
        by (simp only: a2 d2)
      from Suc.IH[OF p1 p2 p3 p4 p5] obtain out k where
        o: "sub_steps_f64 upd f ?s2 = Some out" "k \<le> n"
        "dt (state_of out) = dt ?s2" "time_scale (state_of out) = time_scale ?s2"
        "steps_taken (state_of out) = steps_taken ?s2 + k"
        "0 \<le> time_accumulator (state_of out)"
        "binary64 (time_accumulator (state_of out)) = time_accumulator (state_of out)"
        "time_accumulator (state_of out) + real k * dt ?s2
             \<le> time_accumulator ?s2 + real k / 2 ^ 55"
        "\<forall>s'. out = Returned s' \<longrightarrow> time_accumulator s' < dt ?s2"
        "returns_keeping_clock upd \<longrightarrow> (\<exists>s'. out = Returned s')" by blast
      have e: "sub_steps_f64 upd f s = Some out"
        using sub_steps_f64_returned[of s upd s1 f] big Returned o(1) by simp
      have "real (Suc k) * dt s = real k * dt s + dt s"
        "real (Suc k) / 2 ^ 55 = real k / 2 ^ 55 + 1 / 2 ^ 55"
        by (simp_all add: distrib_right add_divide_distrib)
      moreover have "time_accumulator (state_of out) + real k * dt s
             \<le> binary64 ?x + real k / 2 ^ 55"
        using o(8) by (simp only: a2 d2)
      ultimately have l: "time_accumulator (state_of out) + real (Suc k) * dt s
             \<le> time_accumulator s + real (Suc k) / 2 ^ 55"
        using up by linarith
      show ?thesis using e o(2,3,4,5,6,7,9,10) l
        by (intro exI[of _ out] exI[of _ "Suc k"]) (simp add: d2 ts2 st2)
    qed
  qed
qed

lemma simulate_f64_nonneg:
  assumes K: "keeps_clock upd" and D: "dt s = binary64 (1 / 20)"
    and a: "0 \<le> time_accumulator s" "time_accumulator s < dt s"
    and ad: "binary64 (time_accumulator s) = time_accumulator s"
    and ts: "time_scale s = 1" and f: "0 \<le> f" "binary64 f = f"
  shows "\<exists>out. simulate_f64 upd f s = Some out \<and> dt (state_of out) = dt s \<and>
           time_scale (state_of out) = 1 \<and> 0 \<le> time_accumulator (state_of out) \<and>
           binary64 (time_accumulator (state_of out)) = time_accumulator (state_of out) \<and>
           time_accumulator (state_of out) + real (steps_taken (state_of out)) * dt s
             \<le> time_accumulator s + real (steps_taken s) * dt s + f + 1 / 2 ^ 53 \<and>
           (returns_keeping_clock upd \<longrightarrow> (\<exists>s'. out = Returned s')) \<and>
           (\<forall>s'. out = Returned s' \<longrightarrow> time_accumulator s' < dt s)"
proof -
  define c where "c = binary64 (1 / 10)"
  have cv: "c = 7205759403792794 / 2 ^ 56" by (simp add: c_def tenth)
  have dv: "dt s = 7205759403792794 / 2 ^ 57" by (simp add: D twentieth)
  have dd: "binary64 (dt s) = dt s" by (simp add: D binary64_idem)
  have c0: "0 \<le> c" "c \<le> 1 / 10 + 1 / 2 ^ 55" by (simp_all add: cv)
  have d0: "1 / 20 \<le> dt s" "dt s \<le> 1 / 20 + 1 / 2 ^ 55" "1 / 2 ^ 55 \<le> dt s"
    by (simp_all add: dv)
  define m where "m = min f c"
  have m0: "0 \<le> m" "m \<le> c" "m \<le> f" using f(1) c0(1) by (simp_all add: m_def)
  define x where "x = time_accumulator s + m"
  have x0: "0 \<le> x" "x \<le> 1 / 4" using a m0 c0 d0 by (simp_all add: x_def)
  from binary64_small[OF x0] have r: "0 \<le> binary64 x" "\<bar>binary64 x - x\<bar> \<le> 1 / 2 ^ 55"
    by simp_all
  have up: "binary64 x \<le> x + 1 / 2 ^ 55" using r(2) by linarith
  let ?s0 = "s\<lparr>time_accumulator := binary64 x\<rparr>"
  have su: "simulate_f64 upd f s =
     (case sub_steps_f64 upd f ?s0 of None \<Rightarrow> None
      | Some (Thrown e s') \<Rightarrow> Some (Thrown e s')
      | Some (Returned s') \<Rightarrow> Some (Returned (blend_all_f64 s')))"
    using ts f(2) by (simp add: simulate_f64_unfold x_def m_def c_def)
  have "\<exists>out k. sub_steps_f64 upd f ?s0 = Some out \<and> k \<le> 3 \<and>
           dt (state_of out) = dt s \<and> time_scale (state_of out) = 1 \<and>
           steps_taken (state_of out) = steps_taken s + k \<and>
           0 \<le> time_accumulator (state_of out) \<and>
           binary64 (time_accumulator (state_of out)) = time_accumulator (state_of out) \<and>
           time_accumulator (state_of out) + real k * dt s \<le> binary64 x + real k / 2 ^ 55 \<and>
           (\<forall>s'. out = Returned s' \<longrightarrow> time_accumulator s' < dt s) \<and>
           (returns_keeping_clock upd \<longrightarrow> (\<exists>s'. out = Returned s'))"
  proof (cases "f = 0")
    case True
    then have "m = 0" using c0(1) by (simp add: m_def)
    then have e: "binary64 x = time_accumulator s" using ad by (simp add: x_def)
    then have "\<bar>time_accumulator ?s0\<bar> < dt ?s0" using a by simp
    then have "sub_steps_f64 upd f ?s0 = Some (Returned ?s0)" by (rule sub_steps_f64_rest)
    then show ?thesis using a ts ad e
      by (intro exI[of _ "Returned ?s0"] exI[of _ 0]) simp
  next
    case False
    then have sg: "sgn f = 1" using f(1) by simp
    have p: "binary64 (dt ?s0) = dt ?s0" "1 / 2 ^ 55 \<le> dt ?s0"
      "binary64 (time_accumulator ?s0) = time_accumulator ?s0"
      "0 \<le> time_accumulator ?s0" "time_accumulator ?s0 \<le> 1 / 4"
      "time_accumulator ?s0 < dt ?s0 + real 3 * (dt ?s0 - 1 / 2 ^ 55)"
      using dd d0 r(1) up x0 a m0 c0 by (simp_all add: binary64_idem x_def)
    from sub_steps_f64_count[OF K sg p] ts show ?thesis by simp
  qed
  then obtain out k where o: "sub_steps_f64 upd f ?s0 = Some out" "k \<le> 3"
    "dt (state_of out) = dt s" "time_scale (state_of out) = 1"
    "steps_taken (state_of out) = steps_taken s + k"
    "0 \<le> time_accumulator (state_of out)"
    "binary64 (time_accumulator (state_of out)) = time_accumulator (state_of out)"
    "time_accumulator (state_of out) + real k * dt s \<le> binary64 x + real k / 2 ^ 55"
    "\<forall>s'. out = Returned s' \<longrightarrow> time_accumulator s' < dt s"
    "returns_keeping_clock upd \<longrightarrow> (\<exists>s'. out = Returned s')"
    by blast
  have "real k \<le> 3" using o(2) by simp
  then have "real k / 2 ^ 55 \<le> 3 / 2 ^ 55" by (simp add: divide_right_mono)
  then have "time_accumulator (state_of out) + real k * dt s
               \<le> time_accumulator s + f + 1 / 2 ^ 53"
    using o(8) up m0(3) by (simp add: x_def)
  moreover have "real (steps_taken (state_of out)) * dt s =
                   real (steps_taken s) * dt s + real k * dt s"
    by (simp add: o(5) distrib_right)
  ultimately have l: "time_accumulator (state_of out) + real (steps_taken (state_of out)) * dt s
             \<le> time_accumulator s + real (steps_taken s) * dt s + f + 1 / 2 ^ 53"
    by linarith
  show ?thesis
  proof (cases out)
    case (Thrown e s')
    then have "simulate_f64 upd f s = Some (Thrown e s')" using su o(1) by simp
    then show ?thesis using o(3,4,6,7,10) l Thrown
      by (intro exI[of _ "Thrown e s'"]) simp
  next
    case (Returned s')
    then have "simulate_f64 upd f s = Some (Returned (blend_all_f64 s'))" using su o(1) by simp
    moreover have "clock_of (blend_all_f64 s') = clock_of s'" by (rule clock_of_blend_all_f64)
    note c' = clock_of_eqD[OF this]
    ultimately show ?thesis using o(3,4,6,7,9) l Returned
      by (intro exI[of _ "Returned (blend_all_f64 s')"]) (simp add: c')
  qed
qed

lemma simulate_frames_f64_nonneg:
  assumes K: "keeps_clock upd"
  shows "\<forall>f\<in>set fs. 0 \<le> f \<and> binary64 f = f \<Longrightarrow> dt s = binary64 (1 / 20) \<Longrightarrow>
         0 \<le> time_accumulator s \<Longrightarrow> time_accumulator s < dt s \<Longrightarrow>
         binary64 (time_accumulator s) = time_accumulator s \<Longrightarrow> time_scale s = 1 \<Longrightarrow>
         \<exists>out. simulate_frames_f64 upd fs s = Some out \<and> dt (state_of out) = dt s \<and>
           0 \<le> time_accumulator (state_of out) \<and>
           time_accumulator (state_of out) + real (steps_taken (state_of out)) * dt s \<le>
             time_accumulator s + real (steps_taken s) * dt s + sum_list fs
               + real (length fs) / 2 ^ 53"
proof (induction fs arbitrary: s)
  case Nil
  then show ?case by simp
next
  case (Cons f fs)
  have f0: "0 \<le> f" "binary64 f = f" using Cons.prems(1) by simp_all
  from simulate_f64_nonneg[OF K Cons.prems(2,3,4,5,6) f0]
  obtain out where o: "simulate_f64 upd f s = Some out" "dt (state_of out) = dt s"
    "time_scale (state_of out) = 1" "0 \<le> time_accumulator (state_of out)"
    "binary64 (time_accumulator (state_of out)) = time_accumulator (state_of out)"
    "time_accumulator (state_of out) + real (steps_taken (state_of out)) * dt s
             \<le> time_accumulator s + real (steps_taken s) * dt s + f + 1 / 2 ^ 53"
    "\<forall>s'. out = Returned s' \<longrightarrow> time_accumulator s' < dt s" by blast
  have rest: "0 \<le> sum_list fs" using Cons.prems(1) by (simp add: sum_list_nonneg)
  have len: "real (length (f # fs)) / 2 ^ 53 = real (length fs) / 2 ^ 53 + 1 / 2 ^ 53"
    by (simp add: add_divide_distrib)
  have lenpos: "0 \<le> real (length fs) / 2 ^ 53" by simp
  show ?case
  proof (cases out)
    case (Thrown e s')
    then have "simulate_frames_f64 upd (f # fs) s = Some (Thrown e s')" using o(1) by simp
    moreover have "time_accumulator s' + real (steps_taken s') * dt s \<le>
             time_accumulator s + real (steps_taken s) * dt s + sum_list (f # fs)
               + real (length (f # fs)) / 2 ^ 53"
      using o(6) Thrown rest lenpos unfolding len by simp
    ultimately show ?thesis using o(2,4) Thrown
      by (intro exI[of _ "Thrown e s'"]) simp
  next
    case (Returned s')
    then have sf: "simulate_frames_f64 upd (f # fs) s = simulate_frames_f64 upd fs s'"
      using o(1) by simp
    have ds: "dt s' = dt s" using o(2) Returned by simp
    have p: "\<forall>f\<in>set fs. 0 \<le> f \<and> binary64 f = f" "dt s' = binary64 (1 / 20)"
      "0 \<le> time_accumulator s'" "time_accumulator s' < dt s'"
      "binary64 (time_accumulator s') = time_accumulator s'" "time_scale s' = 1"
      using Cons.prems o(2,3,4,5,7) Returned by simp_all
    from Cons.IH[OF p] obtain out' where o':
      "simulate_frames_f64 upd fs s' = Some out'" "dt (state_of out') = dt s'"
      "0 \<le> time_accumulator (state_of out')"
      "time_accumulator (state_of out') + real (steps_taken (state_of out')) * dt s' \<le>
             time_accumulator s' + real (steps_taken s') * dt s' + sum_list fs
               + real (length fs) / 2 ^ 53"
      by blast
    have "time_accumulator s' + real (steps_taken s') * dt s
             \<le> time_accumulator s + real (steps_taken s) * dt s + f + 1 / 2 ^ 53"
      using o(6) Returned by simp
    then have "time_accumulator (state_of out') + real (steps_taken (state_of out')) * dt s \<le>
             time_accumulator s + real (steps_taken s) * dt s + sum_list (f # fs)
               + real (length (f # fs)) / 2 ^ 53"
      using o'(4) unfolding len ds by simp
    then show ?thesis using sf o'(1,2,3) ds
      by (intro exI[of _ out']) simp
  qed
qed

lemma simulate_f64_idle:
  assumes R: "returns_keeping_clock upd"
    and "binary64 (time_scale s * f) = ft"
    and "binary64 (time_accumulator s + min ft (binary64 (1 / 10))) = a1"
    and "\<bar>a1\<bar> < dt s"
  shows "\<exists>s'. simulate_f64 upd f s = Some (Returned s') \<and>
           clock_of s' = (a1, time_scale s, t s, dt s, steps_taken s)"
proof -
  let ?s0 = "s\<lparr>time_accumulator := a1\<rparr>"
  have "sub_steps_f64 upd ft ?s0 = Some (Returned ?s0)"
    using assms(4) by (intro sub_steps_f64_rest) simp
  then have "simulate_f64 upd f s = Some (Returned (blend_all_f64 ?s0))"
    using assms(2,3) by (simp add: simulate_f64_unfold)
  moreover have "clock_of (blend_all_f64 ?s0) = (a1, time_scale s, t s, dt s, steps_taken s)"
    by (simp add: clock_of_blend_all_f64) (simp add: clock_of_def)
  ultimately show ?thesis by blast
qed

lemma simulate_f64_one_step:
  assumes R: "returns_keeping_clock upd"
    and "binary64 (time_scale s * f) = ft"
    and "binary64 (time_accumulator s + min ft (binary64 (1 / 10))) = a1"
    and "dt s \<le> \<bar>a1\<bar>"
    and "binary64 (sgn ft * dt s) = st"
    and "binary64 (a1 - st) = a2"
    and "\<bar>a2\<bar> < dt s"
  shows "\<exists>s'. simulate_f64 upd f s = Some (Returned s') \<and>
           clock_of s' = (a2, time_scale s, binary64 (t s + st), dt s, steps_taken s + 1)"
proof -
  let ?s0 = "s\<lparr>time_accumulator := a1\<rparr>"
  from R obtain s1 where s1: "upd (dt ?s0) ?s0 = Returned s1" "clock_of s1 = clock_of ?s0"
    unfolding returns_keeping_clock_def by blast
  note c = clock_of_eqD[OF s1(2)]
  let ?s2 = "sub_step_end_f64 ft s1"
  have c2: "clock_of ?s2 = (a2, time_scale s, binary64 (t s + st), dt s, steps_taken s + 1)"
    using c assms(5,6) by (simp add: clock_of_sub_step_end_f64)
  then have "\<bar>time_accumulator ?s2\<bar> < dt ?s2" using assms(7) by (simp add: clock_of_def)
  then have e2: "sub_steps_f64 upd ft ?s2 = Some (Returned ?s2)" by (rule sub_steps_f64_rest)
  have "dt ?s0 \<le> \<bar>time_accumulator ?s0\<bar>" using assms(4) by simp
  then have "sub_steps_f64 upd ft ?s0 = Some (Returned ?s2)"
    using sub_steps_f64_returned[of ?s0 upd s1 ft] s1(1) e2 by simp
  then have "simulate_f64 upd f s = Some (Returned (blend_all_f64 ?s2))"
    using assms(2,3) by (simp add: simulate_f64_unfold)
  moreover have "clock_of (blend_all_f64 ?s2) =
      (a2, time_scale s, binary64 (t s + st), dt s, steps_taken s + 1)"
    by (simp add: clock_of_blend_all_f64 c2)
  ultimately show ?thesis by blast
qed

lemma sixtieth_facts:
  "binary64 (binary64 (1 / 60)) = binary64 (1 / 60)"
  "0 < binary64 (1 / 60)"
  "binary64 (1 / 60) \<le> binary64 (1 / 10)"
  "binary64 (1 / 60) < binary64 (1 / 20)"
  "binary64 (binary64 (1 / 60) + binary64 (1 / 60)) = 2 * binary64 (1 / 60)"
  "2 * binary64 (1 / 60) < binary64 (1 / 20)"
  "binary64 (2 * binary64 (1 / 60) + binary64 (1 / 60)) = binary64 (1 / 20)"
  "binary64 (binary64 (1 / 20) + binary64 (1 / 20)) = 2 * binary64 (1 / 20)"
  "6 * binary64 (1 / 60) < 2 * binary64 (1 / 20)"
proof -
  show "binary64 (binary64 (1 / 60)) = binary64 (1 / 60)" by (rule binary64_idem)
  show "0 < binary64 (1 / 60)" "binary64 (1 / 60) \<le> binary64 (1 / 10)"
    "binary64 (1 / 60) < binary64 (1 / 20)" "2 * binary64 (1 / 60) < binary64 (1 / 20)"
    "6 * binary64 (1 / 60) < 2 * binary64 (1 / 20)"
    by (simp_all add: sixtieth twentieth tenth)
  show "binary64 (binary64 (1 / 60) + binary64 (1 / 60)) = 2 * binary64 (1 / 60)"
    unfolding sixtieth
    by (rule binary64_eval[where p = 57 and q = 0 and m = 4803839602528529])
       (simp_all add: round_half_even_def Let_def)
  show "binary64 (2 * binary64 (1 / 60) + binary64 (1 / 60)) = binary64 (1 / 20)"
    unfolding sixtieth twentieth
    by (rule binary64_eval[where p = 57 and q = 0 and m = 7205759403792794])
       (simp_all add: round_half_even_def Let_def)
  show "binary64 (binary64 (1 / 20) + binary64 (1 / 20)) = 2 * binary64 (1 / 20)"
    unfolding twentieth
    by (rule binary64_eval[where p = 56 and q = 0 and m = 7205759403792794])
       (simp_all add: round_half_even_def Let_def)
qed

text \<open>Three frames of one sixtieth fill the accumulator to exactly \<open>dt\<close>: one step.\<close>

lemma three_sixtieths_one_step:
  assumes R: "returns_keeping_clock upd"
    and c: "clock_of s = (0, 1, T, binary64 (1 / 20), n)"
  shows "\<exists>s'. simulate_frames_f64 upd [binary64 (1 / 60), binary64 (1 / 60), binary64 (1 / 60)] s
                = Some (Returned s') \<and>
           clock_of s' = (0, 1, binary64 (T + binary64 (1 / 20)), binary64 (1 / 20), n + 1)"
proof -
  define a where "a = binary64 (1 / 60)"
  define d where "d = binary64 (1 / 20)"
  note F = sixtieth_facts[folded a_def d_def]
  have dd: "binary64 d = d" by (simp add: d_def binary64_idem)
  have dpos: "0 < d" using F(2,4) by linarith
  have s: "time_accumulator s = 0" "time_scale s = 1" "t s = T" "dt s = d" "steps_taken s = n"
    using c by (simp_all add: clock_of_def d_def)
  have m: "min a (binary64 (1 / 10)) = a" using F(3) by simp
  have "\<exists>s1. simulate_f64 upd a s = Some (Returned s1) \<and>
           clock_of s1 = (a, time_scale s, t s, dt s, steps_taken s)"
    using F(1,2,4) by (intro simulate_f64_idle[OF R, where ft = a]) (simp_all add: s m)
  then obtain s1 where s1: "simulate_f64 upd a s = Some (Returned s1)"
    "clock_of s1 = (a, 1, T, d, n)" by (auto simp: s)
  have q1: "time_accumulator s1 = a" "time_scale s1 = 1" "t s1 = T" "dt s1 = d"
    "steps_taken s1 = n" using s1(2) by (simp_all add: clock_of_def)
  have "\<exists>s2. simulate_f64 upd a s1 = Some (Returned s2) \<and>
           clock_of s2 = (2 * a, time_scale s1, t s1, dt s1, steps_taken s1)"
    using F(1,2,5,6) by (intro simulate_f64_idle[OF R, where ft = a]) (simp_all add: q1 m)
  then obtain s2 where s2: "simulate_f64 upd a s1 = Some (Returned s2)"
    "clock_of s2 = (2 * a, 1, T, d, n)" by (auto simp: q1)
  have q2: "time_accumulator s2 = 2 * a" "time_scale s2 = 1" "t s2 = T" "dt s2 = d"
    "steps_taken s2 = n" using s2(2) by (simp_all add: clock_of_def)
  have sg: "sgn a = 1" using F(2) by simp
  have "\<exists>s3. simulate_f64 upd a s2 = Some (Returned s3) \<and>
           clock_of s3 = (0, time_scale s2, binary64 (t s2 + d), dt s2, steps_taken s2 + 1)"
    using F(1,7) dd dpos
    by (intro simulate_f64_one_step[OF R, where ft = a and ?a1.0 = d and st = d])
       (simp_all add: q2 m sg binary64_zero)
  then obtain s3 where s3: "simulate_f64 upd a s2 = Some (Returned s3)"
    "clock_of s3 = (0, 1, binary64 (T + d), d, n + 1)" by (auto simp: q2)
  have "simulate_frames_f64 upd [a, a, a] s = Some (Returned s3)"
    using s1(1) s2(1) s3(1) by simp
  then show ?thesis using s3(2) unfolding a_def d_def by blast
qed

lemma simulate_frames_f64_append:
  "simulate_frames_f64 upd fs s = Some (Returned s1) \<Longrightarrow>
     simulate_frames_f64 upd (fs @ gs) s = simulate_frames_f64 upd gs s1"
proof (induction fs arbitrary: s)
  case Nil
  then show ?case by simp
next
  case (Cons g fs)
  then show ?case by (auto split: option.splits outcome.splits)
qed

lemma six_frames: "replicate 6 x = [x, x, x] @ [x, x, x]"
  by (simp add: eval_nat_numeral)

subsection \<open>Two sub-steps of the scene\<close>

lemma bodies_sub_step_end: "bodies (sub_step_end f s) = map (advance (dt s)) (bodies s)"
  by (simp add: sub_step_end_def Let_def)

lemma time_timeline: "time (timeline s) = time s"
proof -
  have a: "time (scene_one s) = time s" "time (light_on s) = time s"
    "time (scene_two s) = time s" "time (walk_in s) = time s"
    "time (turn_and_pause s) = time s" "time (umbrellas s) = time s"
    "time (jumping s) = time s" "time (open_umbrella s) = time s"
    "time (hand_over s) = time s" "time (turn_away s) = time s"
    "time (carry_umbrella s) = time s" "time (walk_out s) = time s"
    for s :: "'a totoro_scene_scheme"
    by (simp_all add: timeline_defs Let_def)
  have b: "time (interactivity s) = time s" "time (rest_of_scene s) = time s"
    for s :: "'a totoro_scene_scheme"
    by (simp_all add: interactivity_def rest_of_scene_def a)
  show ?thesis by (simp add: timeline_def a b)
qed

lemma time_pool_step: "time (pool_step d s) = time s + d"
proof -
  have sp: "time (spawn s) = time s" for s :: "'a totoro_scene_scheme"
    by (simp add: spawn_def randomized_def Math_random_def Let_def split_def)
  have rp: "time (replenish s) = time s" for s :: "'a totoro_scene_scheme"
  proof (induction s rule: replenish.induct)
    case (1 s)
    show ?case
    proof (cases "length (bodies s) < rain_count s")
      case False
      then show ?thesis by (simp add: replenish.simps)
    next
      case True
      have r: "replenish s = replenish (spawn s)" using True by (subst replenish.simps) simp
      show ?thesis using 1[OF True] by (simp add: r sp)
    qed
  qed
  show ?thesis
    by (simp add: pool_step_def Let_def reset_rain_count_def rp) (simp add: advance_time_def Let_def)
qed

lemma time_update_state: "time (state_of (TotoroScene_update_state d s)) = time s + d"
  by (simp add: TotoroScene_update_state_def time_timeline time_pool_step)

lemma rain_count_update_state:
  "\<not> totoroJump s \<Longrightarrow>
   rain_count (state_of (TotoroScene_update_state d s)) =
     (if rain_count s = jump_rain_count s then normal_rain_count s else rain_count s)"
  by (simp add: TotoroScene_update_state_def rain_count_timeline pool_step_targets)

text \<open>The first step of an empty pool whose draws are all one half.\<close>

lemma first_step_bodies:
  assumes "bodies s = []" and "random s = half_random" and "0 \<le> d"
  shows "\<exists>new. bodies (state_of (TotoroScene_update_state d s)) = map (gravity d) new \<and>
           length new = rain_count s \<and>
           (\<forall>b\<in>set new. linear_velocity b = (0, - 1.3, 0) \<and> center b = (0, 10, 0))"
proof -
  from bodies_at_filter_split[of d s] obtain new where
    n: "bodies_at_filter d s = map (gravity d) new" "length new = rain_count s"
    "\<forall>b\<in>set new. fresh_drop 1.3 half_random b"
    using assms(1,2) by auto
  have p: "\<forall>b\<in>set new. linear_velocity b = (0, - 1.3, 0) \<and> center b = (0, 10, 0)"
    using n(3) by (auto simp: fresh_drop_def half_random_def)
  have k: "\<forall>b\<in>set new. keep_alive (gravity d b)"
    using n(3) assms(3) fresh_drop_keep[of "1.3" half_random _ d] by simp
  then have f: "filter keep_alive (map (gravity d) new) = map (gravity d) new"
    by (simp add: filter_id_conv)
  have "floor_response (gravity d b) = gravity d b" if "b \<in> set new" for b
    using p that by (intro floor_response_idle) (simp add: gravity_simps vec_y_def)
  then have "map floor_response (map (gravity d) new) = map (gravity d) new"
    by (simp add: map_idI)
  then have "bodies (state_of (TotoroScene_update_state d s)) = map (gravity d) new"
    by (simp only: bodies_update_state n(1) f)
  then show ?thesis using n(2) p by blast
qed

text \<open>A step of a full pool of bodies that fall above the floor: gravity only.\<close>

lemma falling_step_bodies:
  assumes "rain_count s \<le> length (bodies s)"
    and "\<forall>b\<in>set (bodies s). vec_y (linear_velocity b) \<le> 0 \<and> 0.5 \<le> vec_y (center b)"
    and "0 \<le> d"
  shows "bodies (state_of (TotoroScene_update_state d s)) = map (gravity d) (bodies s)"
proof -
  from bodies_at_filter_split[of d s] obtain new where
    "bodies_at_filter d s = map (gravity d) (bodies s) @ map (gravity d) new"
    "length new = rain_count s - length (bodies s)" by blast
  then have n: "bodies_at_filter d s = map (gravity d) (bodies s)" using assms(1) by simp
  have "\<forall>b\<in>set (bodies s). keep_alive (gravity d b)"
    using assms(2,3) by (auto intro!: keep_alive_falling simp: gravity_simps vec_y_def)
  then have f: "filter keep_alive (map (gravity d) (bodies s)) = map (gravity d) (bodies s)"
    by (simp add: filter_id_conv)
  have "floor_response (gravity d b) = gravity d b" if "b \<in> set (bodies s)" for b
    using assms(2) that by (intro floor_response_idle) (auto simp: gravity_simps)
  then have "map floor_response (map (gravity d) (bodies s)) = map (gravity d) (bodies s)"
    by (simp add: map_idI)
  then show ?thesis by (simp only: bodies_update_state n f)
qed

lemma jitter_quarter: "jitter quarter_random k = (- (1 / 2), - (1 / 2), - (1 / 2))"
  by (simp add: jitter_def quarter_random_def)

subsection \<open>Claims about the stepper\<close>

text \<open>
  C1, as amended. On doubles, over any sequence of calls of \<open>simulate\<close> with frame times
  that are not negative, from a fresh stepper (empty accumulator, no step taken, time scale
  1, \<open>dt\<close> the double next to 1/20), the sequence of calls ends and \<open>steps_taken * dt\<close>
  exceeds the sum of the frame times by no more than rounding error, at most
  \<open>1 / 2 ^ 53\<close> for each call made.
\<close>

theorem steps_within_frame_time_up_to_rounding:
  assumes "keeps_clock upd" and "\<forall>f\<in>set fs. 0 \<le> f \<and> binary64 f = f"
    and "time_accumulator s = 0" and "steps_taken s = 0" and "time_scale s = 1"
    and "dt s = binary64 (1 / 20)"
  shows "\<exists>out. simulate_frames_f64 upd fs s = Some out \<and>
           real (steps_taken (state_of out)) * dt (state_of out)
             \<le> sum_list fs + real (length fs) / 2 ^ 53"
proof -
  have d: "0 < dt s" using assms(6) by (simp add: twentieth)
  have p: "0 \<le> time_accumulator s" "time_accumulator s < dt s"
    "binary64 (time_accumulator s) = time_accumulator s"
    using assms(3) d by (simp_all add: binary64_zero)
  from simulate_frames_f64_nonneg[OF assms(1,2,6) p assms(5)]
  obtain out where o: "simulate_frames_f64 upd fs s = Some out" "dt (state_of out) = dt s"
    "0 \<le> time_accumulator (state_of out)"
    "time_accumulator (state_of out) + real (steps_taken (state_of out)) * dt s \<le>
       time_accumulator s + real (steps_taken s) * dt s + sum_list fs
         + real (length fs) / 2 ^ 53"
    by blast
  have "real (steps_taken (state_of out)) * dt s \<le> sum_list fs + real (length fs) / 2 ^ 53"
    using o(3,4) assms(3,4) by simp
  then show ?thesis using o(1,2) by simp
qed

theorem steps_within_frame_time_up_to_rounding_witness:
  "\<exists>out. simulate_frames_f64 TotoroScene_update_state (replicate 6 (binary64 (1 / 60)))
            (TotoroScene_new_f64 half_random) = Some out \<and>
     real (steps_taken (state_of out)) * dt (state_of out)
       \<le> sum_list (replicate 6 (binary64 (1 / 60))) + real 6 / 2 ^ 53"
proof -
  have f: "\<forall>f\<in>set (replicate 6 (binary64 (1 / 60))). 0 \<le> f \<and> binary64 f = f"
    using sixtieth_facts(1,2) by simp
  have s: "time_accumulator (TotoroScene_new_f64 half_random) = 0"
    "steps_taken (TotoroScene_new_f64 half_random) = 0"
    "time_scale (TotoroScene_new_f64 half_random) = 1"
    "dt (TotoroScene_new_f64 half_random) = binary64 (1 / 20)"
    by (simp_all add: TotoroScene_new_f64_def TotoroScene_new_def)
  from steps_within_frame_time_up_to_rounding
    [OF returns_keeping_clock_keeps [OF TotoroScene_returns_keeping_clock] f s]
  show ?thesis by simp
qed

text \<open>
  C1, as stated, fails on doubles: six frames of one sixtieth of a second (the double next
  to 1/60) make the fresh scene take 2 steps, and \<open>2 * dt\<close> is greater than the sum of the
  six frame times (by \<open>1 / 2 ^ 57\<close>): the third and the sixth addition round the
  accumulator up to exactly \<open>dt\<close>.
\<close>

theorem sixtieths_overshoot:
  "map_option (clock_of \<circ> state_of)
     (simulate_frames_f64 TotoroScene_update_state (replicate 6 (binary64 (1 / 60)))
        (TotoroScene_new_f64 half_random))
   = Some (0, 1, 2 * binary64 (1 / 20), binary64 (1 / 20), 2) \<and>
   sum_list (replicate 6 (binary64 (1 / 60))) < real 2 * binary64 (1 / 20)"
proof -
  note R = TotoroScene_returns_keeping_clock
  let ?a = "binary64 (1 / 60)"
  have c0: "clock_of (TotoroScene_new_f64 half_random) = (0, 1, 0, binary64 (1 / 20), 0)"
    by (simp add: clock_of_def TotoroScene_new_f64_def TotoroScene_new_def)
  from three_sixtieths_one_step[OF R c0] obtain s1 where
    s1: "simulate_frames_f64 TotoroScene_update_state [?a, ?a, ?a]
           (TotoroScene_new_f64 half_random) = Some (Returned s1)"
    "clock_of s1 = (0, 1, binary64 (0 + binary64 (1 / 20)), binary64 (1 / 20), 0 + 1)"
    by blast
  have c1: "clock_of s1 = (0, 1, binary64 (1 / 20), binary64 (1 / 20), 1)"
    using s1(2) by (simp add: binary64_idem)
  from three_sixtieths_one_step[OF R c1] obtain s2 where
    s2: "simulate_frames_f64 TotoroScene_update_state [?a, ?a, ?a] s1 = Some (Returned s2)"
    "clock_of s2 = (0, 1, binary64 (binary64 (1 / 20) + binary64 (1 / 20)), binary64 (1 / 20), 1 + 1)"
    by blast
  have c2: "clock_of s2 = (0, 1, 2 * binary64 (1 / 20), binary64 (1 / 20), 2)"
    using s2(2) by (simp only: sixtieth_facts(8)) simp
  have "simulate_frames_f64 TotoroScene_update_state (replicate 6 ?a)
          (TotoroScene_new_f64 half_random) = Some (Returned s2)"
    unfolding six_frames using simulate_frames_f64_append[OF s1(1), of "[?a, ?a, ?a]"] s2(1)
    by simp
  then have "map_option (clock_of \<circ> state_of)
     (simulate_frames_f64 TotoroScene_update_state (replicate 6 ?a)
        (TotoroScene_new_f64 half_random))
   = Some (0, 1, 2 * binary64 (1 / 20), binary64 (1 / 20), 2)"
    by (simp add: c2)
  moreover have "sum_list (replicate 6 ?a) = 6 * ?a" by (simp add: sum_list_replicate)
  ultimately show ?thesis using sixtieth_facts(9) by simp
qed

text \<open>
  C2, as amended. With \<open>dt = 0.05\<close>, time scale 1 and an empty accumulator, one call
  \<open>simulate(0.17)\<close> adds the clamped 0.1 to the accumulator and runs exactly 2 sub-steps:
  the callback runs on the state with the accumulator at 0.1, every body is advanced by
  \<open>dt\<close>, the callback runs a second time, every body is advanced again, and the bodies
  are blended with \<open>alpha = 0\<close>. \<open>steps_taken\<close> grows by 2, the accumulator ends at 0 and
  \<open>t\<close> grows by 0.1.
\<close>

theorem simulate_017_clamped:
  assumes "returns_keeping_clock upd" and "dt s = 0.05" and "time_scale s = 1"
    and "time_accumulator s = 0"
  shows "\<exists>s1 s2 s'.
           upd 0.05 (s\<lparr>time_accumulator := 0.1\<rparr>) = Returned s1 \<and>
           bodies (sub_step_end 0.17 s1) = map (advance 0.05) (bodies s1) \<and>
           upd 0.05 (sub_step_end 0.17 s1) = Returned s2 \<and>
           bodies (sub_step_end 0.17 s2) = map (advance 0.05) (bodies s2) \<and>
           simulate upd 0.17 s = Some (Returned s') \<and>
           s' = blend_all (sub_step_end 0.17 s2) \<and>
           bodies s' = map (blend_state 0) (map (advance 0.05) (bodies s2)) \<and>
           steps_taken s' = steps_taken s + 2 \<and> time_accumulator s' = 0 \<and> t s' = t s + 0.1"
proof -
  let ?s0 = "s\<lparr>time_accumulator := 0.1\<rparr>"
  from assms(1) obtain s1 where s1: "upd (dt ?s0) ?s0 = Returned s1" "clock_of s1 = clock_of ?s0"
    unfolding returns_keeping_clock_def by blast
  note c1 = clock_of_eqD[OF s1(2)]
  let ?s1' = "sub_step_end 0.17 s1"
  have k1: "clock_of ?s1' = (0.05, 1, t s + 0.05, 0.05, steps_taken s + 1)"
    using c1 assms(2,3) by (simp add: clock_of_sub_step_end)
  then have q1: "time_accumulator ?s1' = 0.05" "dt ?s1' = 0.05" by (simp_all add: clock_of_def)
  from assms(1) obtain s2 where s2: "upd (dt ?s1') ?s1' = Returned s2" "clock_of s2 = clock_of ?s1'"
    unfolding returns_keeping_clock_def by blast
  note c2 = clock_of_eqD[OF s2(2)]
  let ?s2' = "sub_step_end 0.17 s2"
  have "clock_of s2 = (0.05, 1, t s + 0.05, 0.05, steps_taken s + 1)"
    using s2(2) k1 by simp
  then have v2: "time_accumulator s2 = 0.05" "time_scale s2 = 1" "t s2 = t s + 0.05"
    "dt s2 = 0.05" "steps_taken s2 = steps_taken s + 1" by (simp_all add: clock_of_def)
  have k2: "clock_of ?s2' = (0, 1, t s + 0.1, 0.05, steps_taken s + 2)"
    unfolding clock_of_sub_step_end v2 by simp
  then have q2: "time_accumulator ?s2' = 0" "dt ?s2' = 0.05" "t ?s2' = t s + 0.1"
    "steps_taken ?s2' = steps_taken s + 2" by (simp_all add: clock_of_def)
  have e3: "sub_steps upd 0.17 ?s2' = Some (Returned ?s2')"
    using q2 by (intro sub_steps_rest) simp
  have e2: "sub_steps upd 0.17 ?s1' = sub_steps upd 0.17 ?s2'"
    using sub_steps_returned[of ?s1' upd s2 "0.17"] s2(1) q1 by simp
  have e1: "sub_steps upd 0.17 ?s0 = sub_steps upd 0.17 ?s1'"
    using sub_steps_returned[of ?s0 upd s1 "0.17"] s1(1) assms(2) by simp
  have "simulate upd 0.17 s = Some (Returned (blend_all ?s2'))"
    using e1 e2 e3 assms(3,4) by (simp add: simulate_unfold)
  moreover have "bodies (blend_all ?s2') = map (blend_state 0) (map (advance 0.05) (bodies s2))"
    unfolding bodies_blend_all q2 bodies_sub_step_end v2 by simp
  moreover have d1: "dt s1 = 0.05" using c1 assms(2) by simp
  have "bodies ?s1' = map (advance 0.05) (bodies s1)"
    "bodies ?s2' = map (advance 0.05) (bodies s2)"
    unfolding bodies_sub_step_end v2 d1 by simp_all
  moreover have "upd 0.05 ?s0 = Returned s1" "upd 0.05 ?s1' = Returned s2"
  proof -
    have "dt ?s0 = 0.05" using assms(2) by simp
    then show "upd 0.05 ?s0 = Returned s1" using s1(1) by (simp only:)
    show "upd 0.05 ?s1' = Returned s2" using s2(1) unfolding q1 .
  qed
  moreover have "steps_taken (blend_all ?s2') = steps_taken s + 2"
    "time_accumulator (blend_all ?s2') = 0" "t (blend_all ?s2') = t s + 0.1"
    using clock_of_eqD[OF clock_of_blend_all[of ?s2']] q2 by simp_all
  ultimately show ?thesis by blast
qed

theorem simulate_017_clamped_witness:
  "\<exists>s'. simulate TotoroScene_update_state 0.17 (TotoroScene_new half_random) = Some (Returned s') \<and>
     steps_taken s' = 2 \<and> time_accumulator s' = 0 \<and> t s' = 0.1 \<and> time s' = 0.1 \<and>
     length (bodies s') = 500 \<and>
     list_all (\<lambda>b. previous_center b = (0, 9.9325, 0) \<and> center b = (0, 9.8625, 0) \<and>
                   drawn_center b = (0, 9.9325, 0)) (bodies s')"
proof -
  let ?S = "TotoroScene_new half_random"
  let ?A = "?S\<lparr>time_accumulator := 0.1\<rparr>"
  have h: "dt ?S = 0.05" "time_scale ?S = 1" "time_accumulator ?S = 0"
    by (simp_all add: TotoroScene_new_def)
  from simulate_017_clamped [OF TotoroScene_returns_keeping_clock h]
  obtain s1 s2 s' where all:
    "TotoroScene_update_state 0.05 ?A = Returned s1 \<and>
     bodies (sub_step_end 0.17 s1) = map (advance 0.05) (bodies s1) \<and>
     TotoroScene_update_state 0.05 (sub_step_end 0.17 s1) = Returned s2 \<and>
     bodies (sub_step_end 0.17 s2) = map (advance 0.05) (bodies s2) \<and>
     simulate TotoroScene_update_state 0.17 ?S = Some (Returned s') \<and>
     s' = blend_all (sub_step_end 0.17 s2) \<and>
     bodies s' = map (blend_state 0) (map (advance 0.05) (bodies s2)) \<and>
     steps_taken s' = steps_taken ?S + 2 \<and> time_accumulator s' = 0 \<and> t s' = t ?S + 0.1"
    by blast
  from all have u1: "TotoroScene_update_state 0.05 ?A = Returned s1"
    and u2: "TotoroScene_update_state 0.05 (sub_step_end 0.17 s1) = Returned s2"
    and b1: "bodies (sub_step_end 0.17 s1) = map (advance 0.05) (bodies s1)"
    and r: "simulate TotoroScene_update_state 0.17 ?S = Some (Returned s')"
    and e: "s' = blend_all (sub_step_end 0.17 s2)"
    and b': "bodies s' = map (blend_state 0) (map (advance 0.05) (bodies s2))"
    and c: "steps_taken s' = steps_taken ?S + 2" "time_accumulator s' = 0" "t s' = t ?S + 0.1"
    by blast+
  have s1: "s1 = state_of (TotoroScene_update_state 0.05 ?A)" using u1 by simp
  have s2: "s2 = state_of (TotoroScene_update_state 0.05 (sub_step_end 0.17 s1))" using u2 by simp
  have i0: "bodies ?A = []" "random ?A = half_random" "rain_count ?A = 500"
    "\<not> totoroJump ?A" "jump_rain_count ?A = 1000" "time ?A = 0"
    by (simp_all add: TotoroScene_new_def)
  from first_step_bodies[OF i0(1,2), of "0.05"] obtain new where
    n: "bodies s1 = map (gravity 0.05) new" "length new = 500"
    "\<forall>b\<in>set new. linear_velocity b = (0, - 1.3, 0) \<and> center b = (0, 10, 0)"
    unfolding s1[symmetric] i0(3) by auto
  have rc1: "rain_count s1 = 500" unfolding s1 using rain_count_update_state[OF i0(4)] i0(3,5) by simp
  have t1: "time s1 = 0.05" unfolding s1 using i0(6) by (simp add: time_update_state)
  let ?s1' = "sub_step_end 0.17 s1"
  have rc1': "rain_count ?s1' = 500" "time ?s1' = 0.05"
    using rc1 t1 by (simp_all add: sub_step_end_def Let_def)
  have p1: "\<forall>b\<in>set (bodies ?s1'). linear_velocity b = (0, - 1.35, 0) \<and> center b = (0, 9.9325, 0)"
    unfolding b1 n(1) using n(3)
    by (simp add: advance_def gravity_def plus_vec3_def times_vec3_def vec_x_def vec_y_def vec_z_def)
  have l1: "length (bodies ?s1') = 500" unfolding b1 n(1) using n(2) by simp
  have "bodies s2 = map (gravity 0.05) (bodies ?s1')"
    unfolding s2 using p1 l1 rc1'(1)
    by (intro falling_step_bodies) (simp_all add: vec_y_def)
  then have p2: "\<forall>b\<in>set (bodies s2). linear_velocity b = (0, - 1.4, 0) \<and> center b = (0, 9.9325, 0)"
    and l2: "length (bodies s2) = 500"
    using p1 l1 by (simp_all add: gravity_def vec_x_def vec_y_def vec_z_def)
  have p': "\<forall>b\<in>set (bodies s'). previous_center b = (0, 9.9325, 0) \<and> center b = (0, 9.8625, 0) \<and>
                   drawn_center b = (0, 9.9325, 0)"
    unfolding b' using p2
    by (simp add: blend_state_def advance_def mix_def plus_vec3_def times_vec3_def
        vec_x_def vec_y_def vec_z_def)
  have l': "length (bodies s') = 500" unfolding b' using l2 by simp
  have "time s2 = 0.1" unfolding s2 using rc1'(2) by (simp add: time_update_state)
  then have t': "time s' = 0.1" unfolding e by (simp add: blend_all_def sub_step_end_def Let_def)
  have "steps_taken s' = 2" "t s' = 0.1" using c(1,3) by (simp_all add: TotoroScene_new_def)
  then show ?thesis using r c(2) t' l' p' by (intro exI[of _ s']) (simp add: list_all_iff)
qed

text \<open>
  C2, as stated, fails: from the fresh scene the call \<open>simulate(0.17)\<close> ends with the
  clock (accumulator, time scale, \<open>t\<close>, \<open>dt\<close>, steps) = (0, 1, 0.1, 0.05, 2), not with
  3 steps, accumulator 0.02 and \<open>t\<close> = 0.15.
\<close>

theorem simulate_017_not_three_steps:
  "map_option (clock_of \<circ> state_of)
     (simulate TotoroScene_update_state 0.17 (TotoroScene_new half_random))
   = Some (0, 1, 1 / 10, 1 / 20, 2)"
proof -
  have "\<exists>s'. simulate TotoroScene_update_state 0.17 (TotoroScene_new half_random) = Some (Returned s') \<and>
           clock_of s' =
             (time_accumulator (TotoroScene_new half_random)
                + min (time_scale (TotoroScene_new half_random) * 0.17) 0.1
                - 1 * real 2 * dt (TotoroScene_new half_random),
              time_scale (TotoroScene_new half_random),
              t (TotoroScene_new half_random) + 1 * real 2 * dt (TotoroScene_new half_random),
              dt (TotoroScene_new half_random), steps_taken (TotoroScene_new half_random) + 2)"
    by (intro simulate_exact TotoroScene_returns_keeping_clock) (simp_all add: TotoroScene_new_def)
  then show ?thesis by (auto simp: TotoroScene_new_def)
qed

text \<open>
  C3. After every call of \<open>simulate\<close> in a sequence of calls with frame times that are not
  negative, from an empty accumulator, at time scale 1 and with a positive step size,
  \<open>alpha = time_accumulator / dt\<close> lies in [0, 1), and the drawn position of every body
  is \<open>(1 - alpha) * previous + alpha * current\<close>.
\<close>

theorem alpha_in_unit_interval:
  assumes "returns_keeping_clock upd" and "\<forall>g\<in>set fs. 0 \<le> g" and "0 \<le> f"
    and "time_accumulator s = 0" and "time_scale s = 1" and "0 < dt s"
  shows "\<exists>s'. simulate_frames upd (fs @ [f]) s = Some (Returned s') \<and>
           0 \<le> time_accumulator s' / dt s' \<and> time_accumulator s' / dt s' < 1 \<and>
           (\<forall>b\<in>set (bodies s'). drawn_center b =
              mix (previous_center b) (center b) (time_accumulator s' / dt s'))"
proof -
  note K = returns_keeping_clock_keeps[OF assms(1)]
  from simulate_frames_nonneg[OF K assms(2,6)] assms(1,4,5,6)
  obtain s1 where s1: "simulate_frames upd fs s = Some (Returned s1)" "dt s1 = dt s"
    "0 \<le> time_accumulator s1" "time_accumulator s1 < dt s" "time_scale s1 = 1"
    by fastforce
  have d1: "0 < dt s1" "time_accumulator s1 < dt s1" using s1(2,4) assms(6) by simp_all
  from simulate_nonneg[OF K d1(1) s1(3) d1(2) s1(5) assms(3)] assms(1)
  obtain s' where s': "simulate upd f s1 = Some (Returned s')" "dt s' = dt s1"
    "0 \<le> time_accumulator s'" "time_accumulator s' < dt s1"
    "\<forall>b\<in>set (bodies s'). drawn_center b =
        mix (previous_center b) (center b) (time_accumulator s' / dt s')"
    by fastforce
  have "simulate_frames upd (fs @ [f]) s = Some (Returned s')"
    using simulate_frames_snoc[OF s1(1), of f] s'(1) by simp
  then show ?thesis using s'(2,3,4,5) d1(1) by simp
qed

theorem alpha_in_unit_interval_witness:
  "\<exists>s'. simulate_frames TotoroScene_update_state ([0.02] @ [0.17]) (TotoroScene_new half_random)
          = Some (Returned s') \<and>
     0 \<le> time_accumulator s' / dt s' \<and> time_accumulator s' / dt s' < 1 \<and>
     list_all (\<lambda>b. drawn_center b = mix (previous_center b) (center b) (time_accumulator s' / dt s'))
       (bodies s')"
  using alpha_in_unit_interval [OF TotoroScene_returns_keeping_clock,
      of "[0.02]" "0.17" "TotoroScene_new half_random"]
  by (simp add: TotoroScene_new_def list_all_iff)

text \<open>
  C7, as amended. A call of \<open>simulate\<close> on the base class that reaches the loop throws
  \<open>"Override this"\<close> at the first sub-step: no body is advanced and \<open>t\<close> and
  \<open>steps_taken\<close> are as before, but the accumulator has already received the clamped,
  scaled frame time.
\<close>

theorem base_simulate_throws:
  assumes "dt s \<le> \<bar>time_accumulator s + min (time_scale s * f) 0.1\<bar>"
  shows "simulate Simulation_update_state f s =
           Some (Thrown ''Override this''
                  (s\<lparr>time_accumulator := time_accumulator s + min (time_scale s * f) 0.1\<rparr>))"
proof -
  let ?s0 = "s\<lparr>time_accumulator := time_accumulator s + min (time_scale s * f) 0.1\<rparr>"
  have "sub_steps Simulation_update_state (time_scale s * f) ?s0 =
          Some (Thrown ''Override this'' ?s0)"
    using assms
    by (intro sub_steps_thrown) (simp_all add: Simulation_update_state_def)
  then show ?thesis by (simp add: simulate_unfold)
qed

theorem base_simulate_throws_witness:
  "simulate Simulation_update_state 0.05 (Simulation_new half_random) =
     Some (Thrown ''Override this'' ((Simulation_new half_random)\<lparr>time_accumulator := 0.05\<rparr>))"
  using base_simulate_throws [of "Simulation_new half_random" "0.05"]
  by (simp add: Simulation_new_def)

text \<open>
  C7, as stated, fails where it excludes any state change: on the fresh base class the
  call \<open>simulate(0.17)\<close> throws with the accumulator at 0.1, no longer 0.
\<close>

theorem base_simulate_changes_accumulator:
  "map_option (time_accumulator \<circ> state_of)
     (simulate Simulation_update_state 0.17 (Simulation_new half_random)) = Some (1 / 10) \<and>
   time_accumulator (Simulation_new half_random) = 0"
proof -
  let ?s0 = "(Simulation_new half_random)\<lparr>time_accumulator := 1 / 10\<rparr>"
  have "sub_steps Simulation_update_state 0.17 ?s0 = Some (Thrown ''Override this'' ?s0)"
    by (intro sub_steps_thrown) (simp_all add: Simulation_update_state_def Simulation_new_def)
  then show ?thesis by (simp add: simulate_unfold Simulation_new_def)
qed

text \<open>
  C9. When the scaled frame time is at most 0.1, all of it is added to the accumulator,
  however negative. So one call with scaled frame time \<open>- n * dt\<close>, from an empty
  accumulator, runs \<open>n\<close> sub-steps backwards, for every \<open>n\<close>: \<open>t\<close> falls by \<open>n * dt\<close>.
\<close>

theorem clamp_one_sided:
  "(time_scale s * f \<le> 0.1 \<longrightarrow>
      snd (accumulate f s) = s\<lparr>time_accumulator := time_accumulator s + time_scale s * f\<rparr>) \<and>
   (returns_keeping_clock upd \<and> 0 < dt s \<and> time_accumulator s = 0 \<and>
    time_scale s * f = - (real n * dt s) \<longrightarrow>
      (\<exists>s'. simulate upd f s = Some (Returned s') \<and> steps_taken s' = steps_taken s + n \<and>
         t s' = t s - real n * dt s \<and> time_accumulator s' = 0))"
proof (intro conjI impI)
  assume "time_scale s * f \<le> 0.1"
  then show "snd (accumulate f s) = s\<lparr>time_accumulator := time_accumulator s + time_scale s * f\<rparr>"
    by (simp add: accumulate_def Let_def min_def)
next
  assume a: "returns_keeping_clock upd \<and> 0 < dt s \<and> time_accumulator s = 0 \<and>
    time_scale s * f = - (real n * dt s)"
  then have R: "returns_keeping_clock upd" and d: "0 < dt s" and z: "time_accumulator s = 0"
    and e: "time_scale s * f = - (real n * dt s)" by simp_all
  have le: "time_scale s * f \<le> 0" using e d by simp
  have m: "min (time_scale s * f) 0.1 = - (real n * dt s)" using le e by (simp add: min_def)
  show "\<exists>s'. simulate upd f s = Some (Returned s') \<and> steps_taken s' = steps_taken s + n \<and>
         t s' = t s - real n * dt s \<and> time_accumulator s' = 0"
  proof (cases "n = 0")
    case True
    let ?s0 = "s\<lparr>time_accumulator := time_accumulator s + min (time_scale s * f) 0.1\<rparr>"
    have "sub_steps upd (time_scale s * f) ?s0 = Some (Returned ?s0)"
      using True m z d by (intro sub_steps_rest) simp
    then show ?thesis using True m z
      by (simp add: simulate_unfold blend_all_def Let_def)
  next
    case False
    then have "time_scale s * f < 0" using e d by simp
    then have sg: "sgn (time_scale s * f) = - 1" by simp
    have "\<exists>s'. simulate upd f s = Some (Returned s') \<and>
           clock_of s' =
             (time_accumulator s + min (time_scale s * f) 0.1 - (- 1) * real n * dt s, time_scale s,
              t s + (- 1) * real n * dt s, dt s, steps_taken s + n)"
      using sg d m z by (intro simulate_exact[OF R]) simp_all
    then show ?thesis using m z by (auto simp: clock_of_def)
  qed
qed

theorem clamp_one_sided_witness:
  "snd (accumulate 100 ((TotoroScene_new half_random)\<lparr>time_scale := - 1\<rparr>)) =
     (TotoroScene_new half_random)\<lparr>time_scale := - 1, time_accumulator := - 100\<rparr> \<and>
   (\<exists>s'. simulate TotoroScene_update_state 100 ((TotoroScene_new half_random)\<lparr>time_scale := - 1\<rparr>)
            = Some (Returned s') \<and>
      steps_taken s' = 2000 \<and> t s' = - 100 \<and> time_accumulator s' = 0)"
proof -
  let ?S = "(TotoroScene_new half_random)\<lparr>time_scale := - 1\<rparr>"
  have h: "time_scale ?S * 100 \<le> 0.1" "0 < dt ?S" "time_accumulator ?S = 0"
    "time_scale ?S * 100 = - (real 2000 * dt ?S)"
    by (simp_all add: TotoroScene_new_def)
  note c = clamp_one_sided [of ?S 100 TotoroScene_update_state 2000]
  have "snd (accumulate 100 ?S) = ?S\<lparr>time_accumulator := time_accumulator ?S + time_scale ?S * 100\<rparr>"
    using c h(1) by blast
  then have a: "snd (accumulate 100 ?S) = ?S\<lparr>time_accumulator := - 100\<rparr>"
    by (simp add: TotoroScene_new_def)
  from c TotoroScene_returns_keeping_clock h(2,3,4) obtain s' where
    "simulate TotoroScene_update_state 100 ?S = Some (Returned s')"
    "steps_taken s' = steps_taken ?S + 2000" "t s' = t ?S - real 2000 * dt ?S"
    "time_accumulator s' = 0" by blast
  then have "\<exists>s'. simulate TotoroScene_update_state 100 ?S = Some (Returned s') \<and>
      steps_taken s' = 2000 \<and> t s' = - 100 \<and> time_accumulator s' = 0"
    by (intro exI[of _ s']) (simp add: TotoroScene_new_def)
  with a show ?thesis by simp
qed

subsection \<open>Claims about the pool\<close>

text \<open>
  C4. In a fixed step of the current scene, a body that reaches the floor pass below
  height 0.5 with a negative vertical velocity stays live, its vertical velocity is
  multiplied by -0.2 (so it turns positive and its magnitude shrinks) and its height is set
  to 0.5. A body at height 0.4 falling at 2.0 leaves at height 0.5 rising at 0.4.
\<close>

theorem floor_bounce:
  assumes "b \<in> set (bodies_at_filter d s)" and "vec_y (center b) < 0.5"
    and "vec_y (linear_velocity b) < 0"
  shows "floor_response b \<in> set (bodies (state_of (TotoroScene_update_state d s))) \<and>
         vec_y (linear_velocity (floor_response b)) = - 0.2 * vec_y (linear_velocity b) \<and>
         0 < vec_y (linear_velocity (floor_response b)) \<and>
         \<bar>vec_y (linear_velocity (floor_response b))\<bar> < \<bar>vec_y (linear_velocity b)\<bar> \<and>
         vec_y (center (floor_response b)) = 0.5"
proof -
  have "keep_alive b" using assms(3) by (simp add: keep_alive_falling)
  then have "floor_response b \<in> set (bodies (state_of (TotoroScene_update_state d s)))"
    using assms(1) by (rule kept_body_survives[rotated])
  moreover note floor_response_bounce(1,2)[OF assms(2,3)]
  ultimately show ?thesis using assms(3) by simp
qed

theorem floor_bounce_witness:
  "floor_response (gravity (1 / 20) (drop_at 0.4 (- 1.95)))
     \<in> set (bodies (state_of (TotoroScene_update_state (1 / 20) (scene_with [drop_at 0.4 (- 1.95)])))) \<and>
   vec_y (center (gravity (1 / 20) (drop_at 0.4 (- 1.95)))) = 0.4 \<and>
   vec_y (linear_velocity (gravity (1 / 20) (drop_at 0.4 (- 1.95)))) = - 2 \<and>
   vec_y (linear_velocity (floor_response (gravity (1 / 20) (drop_at 0.4 (- 1.95))))) = 0.4 \<and>
   vec_y (center (floor_response (gravity (1 / 20) (drop_at 0.4 (- 1.95))))) = 0.5"
proof -
  let ?b = "gravity (1 / 20) (drop_at 0.4 (- 1.95))"
  have m: "?b \<in> set (bodies_at_filter (1 / 20) (scene_with [drop_at 0.4 (- 1.95)]))"
    by (intro bodies_at_filter_mem) (simp add: scene_with_simps)
  have c: "vec_y (center ?b) = 0.4" and v: "vec_y (linear_velocity ?b) = - 2"
    by (simp_all add: gravity_simps drop_at_simps vec_x_def vec_y_def vec_z_def)
  have "vec_y (center ?b) < 0.5" "vec_y (linear_velocity ?b) < 0" using c v by simp_all
  from floor_bounce[OF m this] c v show ?thesis by simp
qed

text \<open>
  C5, as amended. The replenish loop adds exactly \<open>rain_count - length bodies\<close> bodies
  (none when the pool already holds more), each inside the spawn box; after a fixed step
  in which the filter removes nothing, the number of live bodies is the larger of the
  number before the step and \<open>rain_count\<close> before the step. From 0 bodies and target 10 that
  is 10 bodies.
\<close>

theorem pool_population:
  assumes "unit_random s"
  shows "\<exists>new. bodies (replenish (advance_time d s)) = bodies s @ new \<and>
           length new = rain_count s - length (bodies s) \<and>
           (\<forall>b\<in>set new. spawn_box (center b)) \<and>
           ((\<forall>b\<in>set (bodies_at_filter d s). keep_alive b) \<longrightarrow>
              length (bodies (state_of (TotoroScene_update_state d s))) =
                max (length (bodies s)) (rain_count s))"
proof -
  from replenish_bodies[of "advance_time d s"] obtain new where
    n: "bodies (replenish (advance_time d s)) = bodies s @ new"
    "length new = rain_count s - length (bodies s)"
    "\<forall>b\<in>set new. fresh_drop 1.3 (random s) b"
    by (auto simp: advance_time_frame)
  have "\<forall>b\<in>set new. spawn_box (center b)"
    using n(3) assms fresh_drop_box unfolding unit_random_def by blast
  then show ?thesis using n(1,2) no_retirement_length[of d s] by blast
qed

theorem pool_population_witness:
  "\<exists>new. bodies (replenish (advance_time (1 / 20) ((TotoroScene_new half_random)\<lparr>rain_count := 10\<rparr>)))
            = new \<and>
     length new = 10 \<and> list_all (\<lambda>b. spawn_box (center b)) new \<and>
     length (bodies (state_of (TotoroScene_update_state (1 / 20)
                ((TotoroScene_new half_random)\<lparr>rain_count := 10\<rparr>)))) = 10"
proof -
  let ?S = "(TotoroScene_new half_random)\<lparr>rain_count := 10\<rparr>"
  have u: "unit_random ?S" by (simp add: unit_random_def TotoroScene_new_def half_random_def)
  have e: "bodies ?S = []" "rain_count ?S = 10" by (simp_all add: TotoroScene_new_def)
  have k: "\<forall>b\<in>set (bodies_at_filter (1 / 20) ?S). keep_alive b"
    by (intro all_kept) (simp_all add: e)
  from pool_population[OF u, of "1 / 20"] k obtain new where
    "bodies (replenish (advance_time (1 / 20) ?S)) = bodies ?S @ new"
    "length new = rain_count ?S - length (bodies ?S)"
    "\<forall>b\<in>set new. spawn_box (center b)"
    "length (bodies (state_of (TotoroScene_update_state (1 / 20) ?S))) =
       max (length (bodies ?S)) (rain_count ?S)" by blast
  then show ?thesis by (intro exI[of _ new]) (simp add: e list_all_iff)
qed

text \<open>
  C5, as stated, fails: in the pool after a jump, with 1000 falling bodies and the target
  back at 500, a fixed step retires nothing and leaves 1000 live bodies while
  \<open>rain_count\<close> is 500 before and after the step.
\<close>

theorem crowded_pool_exceeds_target:
  "rain_count crowded = 500 \<and>
   filter keep_alive (bodies_at_filter (1 / 20) crowded) = bodies_at_filter (1 / 20) crowded \<and>
   length (bodies (state_of (TotoroScene_update_state (1 / 20) crowded))) = 1000 \<and>
   rain_count (state_of (TotoroScene_update_state (1 / 20) crowded)) = 500"
proof -
  have r: "rain_count crowded = 500" and b: "bodies crowded = replicate 1000 (drop_at 10 (- 1.35))"
    and j: "\<not> totoroJump crowded" and tg: "jump_rain_count crowded = 1000"
    by (simp_all add: crowded_def scene_with_simps)
  have k: "\<forall>x\<in>set (bodies_at_filter (1 / 20) crowded). keep_alive x"
    by (intro all_kept)
       (simp_all add: b keep_alive_def gravity_simps drop_at_simps vec_x_def vec_y_def vec_z_def)
  then have f: "filter keep_alive (bodies_at_filter (1 / 20) crowded) =
                  bodies_at_filter (1 / 20) crowded"
    by (simp add: filter_id_conv)
  have l: "length (bodies (state_of (TotoroScene_update_state (1 / 20) crowded))) = 1000"
    using no_retirement_length[OF k] by (simp add: r b)
  have "rain_count (state_of (TotoroScene_update_state (1 / 20) crowded)) =
          rain_count (pool_step (1 / 20) crowded)"
    using j by (simp add: TotoroScene_update_state_def rain_count_timeline pool_step_targets)
  then have "rain_count (state_of (TotoroScene_update_state (1 / 20) crowded)) = 500"
    by (simp add: pool_step_targets r tg)
  with r f l show ?thesis by simp
qed

text \<open>
  C6, as amended. In the first version of the scene (line 214) every body live after a
  fixed step is closer than 50 to the origin and faster than 3. In the current scene the
  filter of line 777 has no distance test and runs between gravity and the floor response:
  every body live after the step is the floor response of a body that, after gravity, had
  a vertical velocity of at most 0 or a speed above 1.2.
\<close>

theorem retirement_by_version:
  "(\<forall>b\<in>set (bodies (pool_step_v1 d s)). norm_vec3 (center b) < 50 \<and> norm_vec3 (linear_velocity b) > 3) \<and>
   (\<forall>b'\<in>set (bodies (state_of (TotoroScene_update_state d s))).
      \<exists>b\<in>set (bodies_at_filter d s).
        (vec_y (linear_velocity b) \<le> 0 \<or> norm_vec3 (linear_velocity b) > 1.2) \<and>
        b' = floor_response b)"
proof -
  have "\<forall>b\<in>set (bodies (pool_step_v1 d s)). norm_vec3 (center b) < 50 \<and> norm_vec3 (linear_velocity b) > 3"
    by (simp add: bodies_pool_step_v1 keep_alive_v1_def)
  moreover have "\<forall>b'\<in>set (bodies (state_of (TotoroScene_update_state d s))).
      \<exists>b\<in>set (bodies_at_filter d s).
        (vec_y (linear_velocity b) \<le> 0 \<or> norm_vec3 (linear_velocity b) > 1.2) \<and>
        b' = floor_response b"
    by (auto simp: bodies_update_state keep_alive_def)
  ultimately show ?thesis by simp
qed

theorem retirement_by_version_witness:
  "length (bodies (pool_step_v1 (1 / 20) (TotoroScene_new half_random))) = 500 \<and>
   list_all (\<lambda>b. norm_vec3 (center b) < 50 \<and> norm_vec3 (linear_velocity b) > 3)
     (bodies (pool_step_v1 (1 / 20) (TotoroScene_new half_random))) \<and>
   length (bodies (state_of (TotoroScene_update_state (1 / 20) (TotoroScene_new half_random)))) = 500 \<and>
   list_all (\<lambda>b'. \<exists>b. b \<in> set (bodies_at_filter (1 / 20) (TotoroScene_new half_random)) \<and>
                     (vec_y (linear_velocity b) \<le> 0 \<or> norm_vec3 (linear_velocity b) > 1.2) \<and>
                     b' = floor_response b)
     (bodies (state_of (TotoroScene_update_state (1 / 20) (TotoroScene_new half_random))))"
proof -
  let ?S = "TotoroScene_new half_random"
  have e: "bodies ?S = []" "rain_count ?S = 500" by (simp_all add: TotoroScene_new_def)
  have k: "\<forall>b\<in>set (bodies_at_filter (1 / 20) ?S). keep_alive b"
    by (intro all_kept) (simp_all add: e)
  have l: "length (bodies (state_of (TotoroScene_update_state (1 / 20) ?S))) = 500"
    using no_retirement_length[OF k] by (simp add: e)
  have l1: "length (bodies (pool_step_v1 (1 / 20) ?S)) = 500" using v1_first_step by blast
  note r = retirement_by_version[of "1 / 20" ?S]
  have a: "list_all (\<lambda>b. norm_vec3 (center b) < 50 \<and> norm_vec3 (linear_velocity b) > 3)
     (bodies (pool_step_v1 (1 / 20) ?S))"
    unfolding list_all_iff using r by blast
  have b: "list_all (\<lambda>b'. \<exists>b. b \<in> set (bodies_at_filter (1 / 20) ?S) \<and>
                     (vec_y (linear_velocity b) \<le> 0 \<or> norm_vec3 (linear_velocity b) > 1.2) \<and>
                     b' = floor_response b)
     (bodies (state_of (TotoroScene_update_state (1 / 20) ?S)))"
    unfolding list_all_iff using r by blast
  from l1 a l b show ?thesis by blast
qed

text \<open>
  C6, as stated, fails: when every draw of \<open>Math.random()\<close> is one quarter, the first
  fixed step of the scene spawns 500 drops below the floor threshold and bounces them; all
  500 are live after the step with speed 0.27, below the threshold 1.2, and fail the
  predicate of the filter.
\<close>

theorem bounced_drops_stay_live:
  "length (bodies (state_of (TotoroScene_update_state (1 / 20) (TotoroScene_new quarter_random)))) = 500 \<and>
   list_all (\<lambda>b. norm_vec3 (linear_velocity b) = 0.27 \<and> \<not> keep_alive b)
     (bodies (state_of (TotoroScene_update_state (1 / 20) (TotoroScene_new quarter_random))))"
proof -
  let ?S = "TotoroScene_new quarter_random"
  have e: "bodies ?S = []" "rain_count ?S = 500" "random ?S = quarter_random"
    by (simp_all add: TotoroScene_new_def)
  have k: "\<forall>b\<in>set (bodies_at_filter (1 / 20) ?S). keep_alive b"
    by (intro all_kept) (simp_all add: e)
  have l: "length (bodies (state_of (TotoroScene_update_state (1 / 20) ?S))) = 500"
    using no_retirement_length[OF k] by (simp add: e)
  from bodies_at_filter_split[of "1 / 20" ?S] obtain new where
    n: "bodies_at_filter (1 / 20) ?S = map (gravity (1 / 20)) new"
    "\<forall>b\<in>set new. fresh_drop 1.3 quarter_random b"
    by (auto simp: e)
  have "norm_vec3 (linear_velocity (floor_response (gravity (1 / 20) b))) = 0.27 \<and>
        \<not> keep_alive (floor_response (gravity (1 / 20) b))" if "b \<in> set new" for b
  proof -
    from n(2) that have "linear_velocity b = (0, - 1.3, 0)" "center b = (- 10, 0, - 10)"
      by (auto simp: fresh_drop_def quarter_random_def)
    then have "linear_velocity (floor_response (gravity (1 / 20) b)) = (0, 0.27, 0)"
      by (simp add: floor_response_def Let_def gravity_simps vec_x_def vec_y_def vec_z_def)
    then show ?thesis by (simp add: keep_alive_def norm_vec3_vertical vec_y_def)
  qed
  then have "list_all (\<lambda>b. norm_vec3 (linear_velocity b) = 0.27 \<and> \<not> keep_alive b)
     (bodies (state_of (TotoroScene_update_state (1 / 20) ?S)))"
    by (auto simp: list_all_iff bodies_update_state n(1))
  with l show ?thesis by simp
qed

text \<open>
  C8, as amended. Every body the replenish loop adds starts with a velocity whose
  magnitude is the spawn speed and whose vertical component is negative. In the scene
  (both versions) the velocity is the unit down vector itself, scaled to the speed (1.3
  now, 3 in the first version): no jitter is added. In Assignment3 it is the unit down
  vector with the jitter of three consecutive random draws, each component from -1 up to,
  not including, 1, normalised and scaled to 3.
\<close>

theorem spawn_velocity:
  "(\<exists>new. bodies (replenish s) = bodies s @ new \<and> length new = rain_count s - length (bodies s) \<and>
      (\<forall>b\<in>set new. linear_velocity b = times_vec3 (0, - 1, 0) 1.3 \<and>
                   norm_vec3 (linear_velocity b) = 1.3 \<and> vec_y (linear_velocity b) < 0)) \<and>
   (\<exists>new. bodies (replenish_v1 s) = bodies s @ new \<and> length new = rain_count s - length (bodies s) \<and>
      (\<forall>b\<in>set new. linear_velocity b = times_vec3 (0, - 1, 0) 3 \<and>
                   norm_vec3 (linear_velocity b) = 3 \<and> vec_y (linear_velocity b) < 0)) \<and>
   (unit_random a \<longrightarrow>
      (\<forall>k. - 1 \<le> vec_x (jitter (random a) k) \<and> vec_x (jitter (random a) k) < 1 \<and>
           - 1 \<le> vec_y (jitter (random a) k) \<and> vec_y (jitter (random a) k) < 1 \<and>
           - 1 \<le> vec_z (jitter (random a) k) \<and> vec_z (jitter (random a) k) < 1) \<and>
      (\<exists>new. bodies (replenish_a3 a) = bodies a @ new \<and> length new = 30 - length (bodies a) \<and>
         (\<forall>b\<in>set new. jittered_by 3 (random a) b \<and> norm_vec3 (linear_velocity b) = 3 \<and>
                      vec_y (linear_velocity b) < 0)))"
proof (intro conjI impI)
  from replenish_bodies[of s] obtain new where
    n: "bodies (replenish s) = bodies s @ new" "length new = rain_count s - length (bodies s)"
    "\<forall>b\<in>set new. fresh_drop 1.3 (random s) b" by blast
  have "\<forall>b\<in>set new. linear_velocity b = times_vec3 (0, - 1, 0) 1.3 \<and>
          norm_vec3 (linear_velocity b) = 1.3 \<and> vec_y (linear_velocity b) < 0"
    using n(3) fresh_drop_speed[of "1.3"]
    by (auto simp: fresh_drop_def times_vec3_def vec_x_def vec_y_def vec_z_def)
  with n(1,2) show "\<exists>new. bodies (replenish s) = bodies s @ new \<and>
      length new = rain_count s - length (bodies s) \<and>
      (\<forall>b\<in>set new. linear_velocity b = times_vec3 (0, - 1, 0) 1.3 \<and>
                   norm_vec3 (linear_velocity b) = 1.3 \<and> vec_y (linear_velocity b) < 0)"
    by blast
next
  from replenish_v1_bodies[of s] obtain new where
    n: "bodies (replenish_v1 s) = bodies s @ new" "length new = rain_count s - length (bodies s)"
    "\<forall>b\<in>set new. fresh_drop 3 (random s) b" by blast
  have "\<forall>b\<in>set new. linear_velocity b = times_vec3 (0, - 1, 0) 3 \<and>
          norm_vec3 (linear_velocity b) = 3 \<and> vec_y (linear_velocity b) < 0"
    using n(3) fresh_drop_speed[of 3]
    by (auto simp: fresh_drop_def times_vec3_def vec_x_def vec_y_def vec_z_def)
  with n(1,2) show "\<exists>new. bodies (replenish_v1 s) = bodies s @ new \<and>
      length new = rain_count s - length (bodies s) \<and>
      (\<forall>b\<in>set new. linear_velocity b = times_vec3 (0, - 1, 0) 3 \<and>
                   norm_vec3 (linear_velocity b) = 3 \<and> vec_y (linear_velocity b) < 0)"
    by blast
next
  assume u: "unit_random a"
  then have r: "\<forall>n. 0 \<le> random a n \<and> random a n < 1" by (simp add: unit_random_def)
  show "\<forall>k. - 1 \<le> vec_x (jitter (random a) k) \<and> vec_x (jitter (random a) k) < 1 \<and>
           - 1 \<le> vec_y (jitter (random a) k) \<and> vec_y (jitter (random a) k) < 1 \<and>
           - 1 \<le> vec_z (jitter (random a) k) \<and> vec_z (jitter (random a) k) < 1"
    using jitter_bounds[OF r] by blast
  from replenish_a3_bodies[of a] obtain new where
    n: "bodies (replenish_a3 a) = bodies a @ new" "length new = 30 - length (bodies a)"
    "\<forall>b\<in>set new. jittered_by 3 (random a) b" by blast
  have "\<forall>b\<in>set new. jittered_by 3 (random a) b \<and> norm_vec3 (linear_velocity b) = 3 \<and>
          vec_y (linear_velocity b) < 0"
    using n(3) jittered_by_speed[OF _ r, of 3] by auto
  with n(1,2) show "\<exists>new. bodies (replenish_a3 a) = bodies a @ new \<and>
      length new = 30 - length (bodies a) \<and>
      (\<forall>b\<in>set new. jittered_by 3 (random a) b \<and> norm_vec3 (linear_velocity b) = 3 \<and>
                   vec_y (linear_velocity b) < 0)"
    by blast
qed

theorem spawn_velocity_witness:
  "(\<exists>new. bodies (replenish (TotoroScene_new quarter_random)) = new \<and> length new = 500 \<and>
      list_all (\<lambda>b. linear_velocity b = times_vec3 (0, - 1, 0) 1.3 \<and>
                   norm_vec3 (linear_velocity b) = 1.3 \<and> vec_y (linear_velocity b) < 0) new) \<and>
   (\<exists>new. bodies (replenish_v1 (TotoroScene_new quarter_random)) = new \<and> length new = 500 \<and>
      list_all (\<lambda>b. linear_velocity b = times_vec3 (0, - 1, 0) 3 \<and>
                   norm_vec3 (linear_velocity b) = 3 \<and> vec_y (linear_velocity b) < 0) new) \<and>
   vec_x (jitter quarter_random 0) = - (1 / 2) \<and>
   (\<exists>new. bodies (replenish_a3 (Simulation_new quarter_random)) = new \<and> length new = 30 \<and>
      list_all (\<lambda>b. linear_velocity b =
                     times_vec3 (normalized (- (1 / 2), - (3 / 2), - (1 / 2))) 3 \<and>
                   norm_vec3 (linear_velocity b) = 3 \<and> vec_y (linear_velocity b) < 0) new)"
proof -
  let ?T = "TotoroScene_new quarter_random"
  let ?A = "Simulation_new quarter_random"
  have u: "unit_random ?A"
    by (simp add: unit_random_def Simulation_new_def quarter_random_def)
  have e: "bodies ?T = []" "rain_count ?T = 500" "bodies ?A = []" "random ?A = quarter_random"
    by (simp_all add: TotoroScene_new_def Simulation_new_def)
  note sv = spawn_velocity[of ?T ?A]
  from sv obtain n1 where n1: "bodies (replenish ?T) = bodies ?T @ n1"
    "length n1 = rain_count ?T - length (bodies ?T)"
    "\<forall>b\<in>set n1. linear_velocity b = times_vec3 (0, - 1, 0) 1.3 \<and>
                   norm_vec3 (linear_velocity b) = 1.3 \<and> vec_y (linear_velocity b) < 0"
    by blast
  from sv obtain n2 where n2: "bodies (replenish_v1 ?T) = bodies ?T @ n2"
    "length n2 = rain_count ?T - length (bodies ?T)"
    "\<forall>b\<in>set n2. linear_velocity b = times_vec3 (0, - 1, 0) 3 \<and>
                   norm_vec3 (linear_velocity b) = 3 \<and> vec_y (linear_velocity b) < 0"
    by blast
  from sv u obtain n3 where n3: "bodies (replenish_a3 ?A) = bodies ?A @ n3"
    "length n3 = 30 - length (bodies ?A)"
    "\<forall>b\<in>set n3. jittered_by 3 (random ?A) b \<and> norm_vec3 (linear_velocity b) = 3 \<and>
                      vec_y (linear_velocity b) < 0"
    by blast
  have j: "plus_vec3 (0, - 1, 0) (jitter quarter_random k) = (- (1 / 2), - (3 / 2), - (1 / 2))"
    for k by (simp add: jitter_quarter plus_vec3_def vec_x_def vec_y_def vec_z_def)
  have v3: "\<forall>b\<in>set n3. linear_velocity b =
                     times_vec3 (normalized (- (1 / 2), - (3 / 2), - (1 / 2))) 3"
    using n3(3) unfolding jittered_by_def e(4) j by blast
  have a1: "list_all (\<lambda>b. linear_velocity b = times_vec3 (0, - 1, 0) 1.3 \<and>
                   norm_vec3 (linear_velocity b) = 1.3 \<and> vec_y (linear_velocity b) < 0) n1"
    unfolding list_all_iff by (rule n1(3))
  have b1: "list_all (\<lambda>b. linear_velocity b = times_vec3 (0, - 1, 0) 3 \<and>
                   norm_vec3 (linear_velocity b) = 3 \<and> vec_y (linear_velocity b) < 0) n2"
    unfolding list_all_iff by (rule n2(3))
  have c1: "list_all (\<lambda>b. linear_velocity b =
                     times_vec3 (normalized (- (1 / 2), - (3 / 2), - (1 / 2))) 3 \<and>
                   norm_vec3 (linear_velocity b) = 3 \<and> vec_y (linear_velocity b) < 0) n3"
    unfolding list_all_iff using n3(3) v3 by blast
  have a: "\<exists>new. bodies (replenish ?T) = new \<and> length new = 500 \<and>
      list_all (\<lambda>b. linear_velocity b = times_vec3 (0, - 1, 0) 1.3 \<and>
                   norm_vec3 (linear_velocity b) = 1.3 \<and> vec_y (linear_velocity b) < 0) new"
    using n1(1,2) a1 by (simp add: e)
  have b: "\<exists>new. bodies (replenish_v1 ?T) = new \<and> length new = 500 \<and>
      list_all (\<lambda>b. linear_velocity b = times_vec3 (0, - 1, 0) 3 \<and>
                   norm_vec3 (linear_velocity b) = 3 \<and> vec_y (linear_velocity b) < 0) new"
    using n2(1,2) b1 by (simp add: e)
  have c: "\<exists>new. bodies (replenish_a3 ?A) = new \<and> length new = 30 \<and>
      list_all (\<lambda>b. linear_velocity b =
                     times_vec3 (normalized (- (1 / 2), - (3 / 2), - (1 / 2))) 3 \<and>
                   norm_vec3 (linear_velocity b) = 3 \<and> vec_y (linear_velocity b) < 0) new"
    using n3(1,2) c1 by (simp add: e)
  have d: "vec_x (jitter quarter_random 0) = - (1 / 2)" by (simp add: jitter_quarter vec_x_def)
  from a b c d show ?thesis by blast
qed

text \<open>
  C8, as stated, fails for the rain pool: when every draw of \<open>Math.random()\<close> is one
  quarter, so that the jitter of any three draws is -1/2 along each axis, the 500 bodies
  the scene spawns all start with the down vector scaled to 1.3, which is not the jittered
  velocity.
\<close>

theorem rain_falls_unjittered:
  "length (bodies (replenish (TotoroScene_new quarter_random))) = 500 \<and>
   list_all (\<lambda>b. linear_velocity b = times_vec3 (0, - 1, 0) 1.3 \<and>
                 \<not> jittered_by 1.3 quarter_random b)
     (bodies (replenish (TotoroScene_new quarter_random)))"
proof -
  let ?T = "TotoroScene_new quarter_random"
  have e: "bodies ?T = []" "rain_count ?T = 500" by (simp_all add: TotoroScene_new_def)
  from replenish_bodies[of ?T] obtain new where
    n: "bodies (replenish ?T) = new" "length new = 500"
    "\<forall>b\<in>set new. fresh_drop 1.3 (random ?T) b" by (auto simp: e)
  define w :: vec3 where "w = (- (1 / 2), - (3 / 2), - (1 / 2))"
  have wn: "0 < norm_vec3 w" by (intro norm_vec3_pos) (simp add: w_def vec_y_def)
  have "vec_x (times_vec3 (normalized w) 1.3) = - (1 / 2) * (1 / norm_vec3 w) * 1.3"
    by (simp add: times_vec3_def normalized_def vec_x_def w_def)
  moreover have "- (1 / 2) * (1 / norm_vec3 w) * 1.3 < 0" using wn by simp
  ultimately have x: "vec_x (times_vec3 (normalized w) 1.3) \<noteq> 0" by simp
  have j: "plus_vec3 (0, - 1, 0) (jitter quarter_random k) = w" for k
    by (simp add: jitter_def quarter_random_def plus_vec3_def vec_x_def vec_y_def vec_z_def w_def)
  have "linear_velocity b = times_vec3 (0, - 1, 0) 1.3 \<and> \<not> jittered_by 1.3 quarter_random b"
    if "b \<in> set new" for b
  proof -
    from n(3) that have v: "linear_velocity b = (0, - 1.3, 0)" by (simp add: fresh_drop_def)
    have "vec_x (linear_velocity b) = 0" by (simp add: v vec_x_def)
    then have "linear_velocity b \<noteq> times_vec3 (normalized w) 1.3" using x by auto
    then have "\<not> jittered_by 1.3 quarter_random b" unfolding jittered_by_def j by simp
    moreover have "linear_velocity b = times_vec3 (0, - 1, 0) 1.3"
      by (simp add: v times_vec3_def vec_x_def vec_y_def vec_z_def)
    ultimately show ?thesis by simp
  qed
  then show ?thesis using n(1,2) by (simp add: list_all_iff)
qed

text \<open>
  C10, as amended. In the fixed step of the current scene the filter runs after gravity
  and before the floor response, and keeps a body exactly when its vertical velocity is at
  most 0 or its speed is above 1.2. So a body that, after gravity, moves upward at a speed
  of at most 1.2 is removed in that step, while a body that bounces in the step is live at
  its end, moving upward.
\<close>

theorem filter_between_gravity_and_floor:
  "bodies (state_of (TotoroScene_update_state d s)) =
     map floor_response (filter keep_alive (bodies_at_filter d s)) \<and>
   (keep_alive b \<longleftrightarrow> vec_y (linear_velocity b) \<le> 0 \<or> norm_vec3 (linear_velocity b) > 1.2) \<and>
   (0 < vec_y (linear_velocity b) \<and> norm_vec3 (linear_velocity b) \<le> 1.2 \<longrightarrow>
      b \<notin> set (filter keep_alive (bodies_at_filter d s))) \<and>
   (c \<in> set (bodies_at_filter d s) \<and> vec_y (center c) < 0.5 \<and> vec_y (linear_velocity c) < 0 \<longrightarrow>
      floor_response c \<in> set (bodies (state_of (TotoroScene_update_state d s))) \<and>
      0 < vec_y (linear_velocity (floor_response c)))"
proof (intro conjI impI)
  show "bodies (state_of (TotoroScene_update_state d s)) =
     map floor_response (filter keep_alive (bodies_at_filter d s))"
    by (rule bodies_update_state)
  show "keep_alive b \<longleftrightarrow> vec_y (linear_velocity b) \<le> 0 \<or> norm_vec3 (linear_velocity b) > 1.2"
    by (simp add: keep_alive_def)
next
  assume "0 < vec_y (linear_velocity b) \<and> norm_vec3 (linear_velocity b) \<le> 1.2"
  then show "b \<notin> set (filter keep_alive (bodies_at_filter d s))"
    by (simp add: keep_alive_def)
next
  assume a: "c \<in> set (bodies_at_filter d s) \<and> vec_y (center c) < 0.5 \<and> vec_y (linear_velocity c) < 0"
  then have "keep_alive c" by (simp add: keep_alive_falling)
  with a show "floor_response c \<in> set (bodies (state_of (TotoroScene_update_state d s)))"
    by (simp add: kept_body_survives)
  from a floor_response_bounce(1)[of c] show "0 < vec_y (linear_velocity (floor_response c))"
    by simp
qed

theorem filter_between_gravity_and_floor_witness:
  "gravity (1 / 20) (drop_at 0.6 0.27)
     \<in> set (bodies_at_filter (1 / 20) (scene_with [drop_at 0.6 0.27, drop_at 0.4 (- 1.95)])) \<and>
   vec_y (linear_velocity (gravity (1 / 20) (drop_at 0.6 0.27))) = 0.22 \<and>
   gravity (1 / 20) (drop_at 0.6 0.27)
     \<notin> set (filter keep_alive
               (bodies_at_filter (1 / 20) (scene_with [drop_at 0.6 0.27, drop_at 0.4 (- 1.95)]))) \<and>
   floor_response (gravity (1 / 20) (drop_at 0.4 (- 1.95)))
     \<in> set (bodies (state_of (TotoroScene_update_state (1 / 20)
                (scene_with [drop_at 0.6 0.27, drop_at 0.4 (- 1.95)])))) \<and>
   vec_y (linear_velocity (floor_response (gravity (1 / 20) (drop_at 0.4 (- 1.95))))) = 0.4"
proof -
  let ?S = "scene_with [drop_at 0.6 0.27, drop_at 0.4 (- 1.95)]"
  let ?b = "gravity (1 / 20) (drop_at 0.6 0.27)"
  let ?c = "gravity (1 / 20) (drop_at 0.4 (- 1.95))"
  have mb: "?b \<in> set (bodies_at_filter (1 / 20) ?S)"
    by (intro bodies_at_filter_mem) (simp add: scene_with_simps)
  have mc: "?c \<in> set (bodies_at_filter (1 / 20) ?S)"
    by (intro bodies_at_filter_mem) (simp add: scene_with_simps)
  have vb: "linear_velocity ?b = (0, 0.22, 0)"
    by (simp add: gravity_simps drop_at_simps vec_x_def vec_y_def vec_z_def)
  have hb: "0 < vec_y (linear_velocity ?b) \<and> norm_vec3 (linear_velocity ?b) \<le> 1.2"
    unfolding vb by (simp add: norm_vec3_vertical vec_y_def)
  have hc: "vec_y (center ?c) < 0.5 \<and> vec_y (linear_velocity ?c) < 0"
    by (simp add: gravity_simps drop_at_simps vec_x_def vec_y_def vec_z_def)
  have vc: "vec_y (linear_velocity (floor_response ?c)) = 0.4"
    using floor_response_bounce(1)[of ?c] hc
    by (simp add: gravity_simps drop_at_simps vec_x_def vec_y_def vec_z_def)
  note r = filter_between_gravity_and_floor[of "1 / 20" ?S ?b ?c]
  have nb: "?b \<notin> set (filter keep_alive (bodies_at_filter (1 / 20) ?S))"
    using r hb by blast
  have fc: "floor_response ?c \<in> set (bodies (state_of (TotoroScene_update_state (1 / 20) ?S)))"
    using r mc hc by blast
  have vb': "vec_y (linear_velocity ?b) = 0.22" unfolding vb by (simp add: vec_y_def)
  from mb vb' nb fc vc show ?thesis by blast
qed

text \<open>
  C10, as stated, fails: a drop that met the floor at speed 7.5 has bounced to an upward
  velocity of 1.51; in the next fixed step it is moving upward, passes the filter (its
  speed after gravity is 1.46, above 1.2) and is live after the step, still rising.
\<close>

theorem bounced_drop_rises:
  "vec_y (linear_velocity bounced) = 1.51 \<and>
   floor_response (gravity (1 / 20) bounced)
     \<in> set (bodies (state_of (TotoroScene_update_state (1 / 20) (scene_with [bounced])))) \<and>
   vec_y (linear_velocity (floor_response (gravity (1 / 20) bounced))) = 1.46"
proof -
  have v: "linear_velocity bounced = (0, 1.51, 0)"
    by (simp add: bounced_def advance_def floor_response_def Let_def gravity_simps drop_at_simps
        vec_x_def vec_y_def vec_z_def)
  have g: "linear_velocity (gravity (1 / 20) bounced) = (0, 1.46, 0)"
    by (simp add: gravity_simps v vec_x_def vec_y_def vec_z_def)
  have k: "keep_alive (gravity (1 / 20) bounced)"
    by (simp add: keep_alive_def g norm_vec3_vertical vec_y_def)
  have f: "floor_response (gravity (1 / 20) bounced) = gravity (1 / 20) bounced"
    by (intro floor_response_idle) (simp add: g vec_y_def)
  have "gravity (1 / 20) bounced \<in> set (bodies_at_filter (1 / 20) (scene_with [bounced]))"
    by (intro bodies_at_filter_mem) (simp add: scene_with_simps)
  then have "floor_response (gravity (1 / 20) bounced)
     \<in> set (bodies (state_of (TotoroScene_update_state (1 / 20) (scene_with [bounced]))))"
    using k by (rule kept_body_survives)
  then show ?thesis by (simp add: f g v vec_y_def)
qed

end
